theory Spec2Isabelle
  imports Complex_Main "HOL-Library.Word"
begin

unbundle bit_operations_syntax

section \<open>Data model\<close>

text \<open>
  The converter reads a binary occupancy map (\<open>map_record.map\<close>) as a Python \<open>bytes\<close>
  object and views it through numpy as a two-dimensional \<open>uint8\<close> array. A byte is an
  8-bit word. A two-dimensional numpy array is its shape together with its cells:
  \<open>cell a y x\<close> is \<open>a[y, x]\<close>, meaningful for \<open>0 \<le> y < nrows a\<close> and
  \<open>0 \<le> x < ncols a\<close>. Every read and write of the source that is modelled with
  \<open>cell\<close> stands behind a bounds check of the source, so no cell outside the shape is
  ever inspected.
\<close>

type_synonym byte = "8 word"

record 'a ndarray =
  nrows :: int
  ncols :: int
  cell :: "int \<Rightarrow> int \<Rightarrow> 'a"

text \<open>
  The failures the modelled code can run into. \<open>InsufficientData n w h\<close> is the
  branch that reports "Map data too small (n bytes) for w x h map" and returns
  \<open>False\<close>; \<open>LoadError\<close> stands for any exception raised while the input files
  are read; the others are the Python exceptions of the same names.
\<close>

datatype error =
    InsufficientData nat nat nat
  | ValueError
  | ZeroDivisionError
  | IndexError
  | OverflowError
  | LoadError

text \<open>The three semantic cell states of the specification's occupancy grid.\<close>

datatype cell_state = Unknown | Free | Obstacle

type_synonym rgb = "byte \<times> byte \<times> byte"
type_synonym rgba = "byte \<times> byte \<times> byte \<times> byte"

section \<open>Grid decoding (create\_map\_image, create\_map)\<close>

text \<open>
  \<open>ndarray.reshape(height, width)\<close> of a one-dimensional array: a view of the same
  elements in row-major order; numpy raises \<open>ValueError\<close> when the element count is
  not \<open>height * width\<close>.
\<close>

definition np_reshape :: "nat \<Rightarrow> nat \<Rightarrow> 'a list \<Rightarrow> error + 'a ndarray" where
  "np_reshape h w xs =
     (if length xs = h * w
      then Inr \<lparr>nrows = int h, ncols = int w, cell = (\<lambda>y x. xs ! (nat y * w + nat x))\<rparr>
      else Inl ValueError)"

text \<open>
  Lines 54--60 of \<open>map_converter.py\<close> (31--37 of \<open>ha_map_converter.py\<close>, the same
  text): the size check, then
  \<open>np.frombuffer(map_data[:width * height], dtype=np.uint8).reshape(height, width)\<close>.
  The dimensions come from \<open>map_record.json\<close>; the data model makes them positive
  integers, so they are naturals here.
\<close>

definition map_array :: "byte list \<Rightarrow> nat \<Rightarrow> nat \<Rightarrow> error + byte ndarray" where
  "map_array map_data width height =
     (if length map_data < width * height
      then Inl (InsufficientData (length map_data) width height)
      else np_reshape height width (take (width * height) map_data))"

text \<open>Elementwise operations of numpy on arrays of one shape.\<close>

definition np_map :: "('a \<Rightarrow> 'b) \<Rightarrow> 'a ndarray \<Rightarrow> 'b ndarray" where
  "np_map f a = \<lparr>nrows = nrows a, ncols = ncols a, cell = (\<lambda>y x. f (cell a y x))\<rparr>"

definition np_map2 :: "('a \<Rightarrow> 'b \<Rightarrow> 'c) \<Rightarrow> 'a ndarray \<Rightarrow> 'b ndarray \<Rightarrow> 'c ndarray" where
  "np_map2 f a b =
     \<lparr>nrows = nrows a, ncols = ncols a, cell = (\<lambda>y x. f (cell a y x) (cell b y x))\<rparr>"

definition np_zeros :: "nat \<Rightarrow> nat \<Rightarrow> rgba ndarray" where
  "np_zeros h w = \<lparr>nrows = int h, ncols = int w, cell = (\<lambda>y x. (0, 0, 0, 0))\<rparr>"

text \<open>\<open>unknown_mask = (map_array == 127)\<close>, \<open>free_mask = (map_array == 0)\<close>,
  \<open>obstacle_mask = ~(unknown_mask | free_mask)\<close>.\<close>

definition unknown_mask :: "byte ndarray \<Rightarrow> bool ndarray" where
  "unknown_mask arr = np_map (\<lambda>v. v = 127) arr"

definition free_mask :: "byte ndarray \<Rightarrow> bool ndarray" where
  "free_mask arr = np_map (\<lambda>v. v = 0) arr"

definition obstacle_mask :: "byte ndarray \<Rightarrow> bool ndarray" where
  "obstacle_mask arr = np_map2 (\<lambda>u f. \<not> (u \<or> f)) (unknown_mask arr) (free_mask arr)"

text \<open>\<open>img[..., 0:3] = [r, g, b]\<close> on one pixel keeps its alpha channel.\<close>

fun set_rgb :: "rgb \<Rightarrow> rgba \<Rightarrow> rgba" where
  "set_rgb (r, g, b) (r0, g0, b0, a0) = (r, g, b, a0)"

fun set_alpha :: "byte \<Rightarrow> rgba \<Rightarrow> rgba" where
  "set_alpha a (r0, g0, b0, a0) = (r0, g0, b0, a)"

text \<open>\<open>img[mask, 0:3] = colour\<close>: boolean-mask assignment.\<close>

definition assign_where :: "bool ndarray \<Rightarrow> rgb \<Rightarrow> rgba ndarray \<Rightarrow> rgba ndarray" where
  "assign_where msk c img =
     img\<lparr>cell := (\<lambda>y x. if cell msk y x then set_rgb c (cell img y x) else cell img y x)\<rparr>"

text \<open>
  Lines 69--85: the RGBA raster, opaque, light gray where the map is unknown, white where
  it is free and black where it is an obstacle, assigned in this order.
\<close>

definition base_img :: "byte ndarray \<Rightarrow> nat \<Rightarrow> nat \<Rightarrow> rgba ndarray" where
  "base_img arr width height =
     (let img0 = np_zeros height width;
          img1 = np_map (set_alpha 255) img0;
          img2 = assign_where (unknown_mask arr) (200, 200, 200) img1;
          img3 = assign_where (free_mask arr) (255, 255, 255) img2
      in assign_where (obstacle_mask arr) (0, 0, 0) img3)"

text \<open>
  The classification in the words of the specification, to compare the code's masks
  with, and the colour the code paints for each state.
\<close>

definition spec_classify :: "byte \<Rightarrow> cell_state" where
  "spec_classify v = (if v = 127 then Unknown else if v = 0 then Free else Obstacle)"

fun state_colour :: "cell_state \<Rightarrow> rgba" where
  "state_colour Unknown = (200, 200, 200, 255)"
| "state_colour Free = (255, 255, 255, 255)"
| "state_colour Obstacle = (0, 0, 0, 255)"

text \<open>Scenario A of the specification: a 4 x 4 grid, free but for an unknown cell at
  (1,1) and an obstacle at (2,2).\<close>

definition scenario_a :: "byte list" where
  "scenario_a = [0, 0, 0, 0,  0, 127, 0, 0,  0, 0, 255, 0,  0, 0, 0, 0]"

section \<open>World to pixel coordinates (create\_map\_image)\<close>

text \<open>
  The metadata values (\<open>x_min\<close>, \<open>y_min\<close>, \<open>resolution\<close>, the charger pose, the
  polygon vertices) are JSON numbers, which the code handles as Python floats. A float is
  a finite value, an infinity or a NaN. The sign of a zero is not kept: no operation
  modelled here tells the two zeros apart (a division by either raises).
\<close>

datatype pyfloat = Finite real | PlusInf | MinusInf | NaN

text \<open>
  A subtraction or a division of floats yields the exact result rounded to a
  representable float, or an infinity on overflow. The rounded operations are parameters
  of the model: \<open>fl_sub ar a b\<close> is the float that the machine computes for
  \<open>a - b\<close>, and \<open>fl_div ar a b\<close> the float it computes for \<open>a / b\<close> when \<open>b\<close>
  is not zero. Nothing is assumed of them, so that what is proved below holds of binary
  floating point under every rounding.
\<close>

record farith =
  fl_sub :: "pyfloat \<Rightarrow> pyfloat \<Rightarrow> pyfloat"
  fl_div :: "pyfloat \<Rightarrow> pyfloat \<Rightarrow> pyfloat"

text \<open>
  Python's \<open>int(r)\<close> on a finite float truncates towards zero; on an infinity it raises
  \<open>OverflowError\<close> and on a NaN \<open>ValueError\<close>. \<open>a / b\<close> raises
  \<open>ZeroDivisionError\<close> when \<open>b\<close> is zero.
\<close>

definition py_int :: "real \<Rightarrow> int" where
  "py_int r = (if r < 0 then ceiling r else floor r)"

definition int_of_float :: "pyfloat \<Rightarrow> error + int" where
  "int_of_float v =
     (case v of
        Finite r \<Rightarrow> Inr (py_int r)
      | PlusInf \<Rightarrow> Inl OverflowError
      | MinusInf \<Rightarrow> Inl OverflowError
      | NaN \<Rightarrow> Inl ValueError)"

definition py_truediv :: "farith \<Rightarrow> pyfloat \<Rightarrow> pyfloat \<Rightarrow> error + pyfloat" where
  "py_truediv ar a b = (if b = Finite 0 then Inl ZeroDivisionError else Inr (fl_div ar a b))"

text \<open>Lines 92--93: \<open>charger_pixel_x = int((charger_x - x_min) / resolution)\<close>, and the
  same for y.\<close>

definition charger_pixel :: "farith \<Rightarrow> pyfloat \<Rightarrow> pyfloat \<Rightarrow> pyfloat \<Rightarrow> error + int" where
  "charger_pixel ar charger_x x_min resolution =
     (case py_truediv ar (fl_sub ar charger_x x_min) resolution of
        Inl e \<Rightarrow> Inl e
      | Inr q \<Rightarrow> int_of_float q)"

text \<open>Lines 115--116 and 145--146: \<open>px = int((x/100.0 - x_min) / resolution)\<close>, and the
  same for y.\<close>

definition polygon_pixel :: "farith \<Rightarrow> pyfloat \<Rightarrow> pyfloat \<Rightarrow> pyfloat \<Rightarrow> error + int" where
  "polygon_pixel ar x x_min resolution =
     (case py_truediv ar x (Finite 100) of
        Inl e \<Rightarrow> Inl e
      | Inr m \<Rightarrow>
          (case py_truediv ar (fl_sub ar m x_min) resolution of
             Inl e \<Rightarrow> Inl e
           | Inr q \<Rightarrow> int_of_float q))"

text \<open>
  The arithmetic of the examples: exact on finite operands. Binary floating point
  computes the same value wherever the operands and the exact result are representable,
  which is so in every example below (small multiples of a power of two). Operands that
  are not finite do not occur in the examples.
\<close>

definition exact_arith :: farith where
  "exact_arith =
     \<lparr>fl_sub = (\<lambda>a b. case a of
                  Finite x \<Rightarrow> (case b of Finite y \<Rightarrow> Finite (x - y) | _ \<Rightarrow> NaN)
                | _ \<Rightarrow> NaN),
      fl_div = (\<lambda>a b. case a of
                  Finite x \<Rightarrow> (case b of Finite y \<Rightarrow> Finite (x / y) | _ \<Rightarrow> NaN)
                | _ \<Rightarrow> NaN)\<rparr>"

section \<open>Orientation correction (create\_perfect\_map)\<close>

text \<open>
  A PIL image is its rows from top to bottom, each row its pixels from left to right.
  \<open>Image.rotate(180, expand=False)\<close> is PIL's transposition \<open>ROTATE_180\<close> (the
  library takes this exact path for an angle of 180 with no centre and no translation),
  and \<open>ImageOps.mirror\<close> is \<open>FLIP_LEFT_RIGHT\<close>.
\<close>

type_synonym 'p image = "'p list list"

definition rotate_180 :: "'p image \<Rightarrow> 'p image" where
  "rotate_180 img = rev (map rev img)"

definition mirror :: "'p image \<Rightarrow> 'p image" where
  "mirror img = map rev img"

text \<open>\<open>str.replace(old, new)\<close> with a non-empty \<open>old\<close>: every occurrence, from the
  left, without overlaps.\<close>

function str_replace :: "string \<Rightarrow> string \<Rightarrow> string \<Rightarrow> string" where
  "str_replace old new s =
     (if s = [] \<or> old = [] then s
      else if take (length old) s = old
           then new @ str_replace old new (drop (length old) s)
           else hd s # str_replace old new (tl s))"
  by pat_completeness auto
termination
  by (relation "measure (\<lambda>(old, new, s). length s)") (auto simp: neq_Nil_conv)

text \<open>
  Lines 603--614 of \<open>v2_map_converter.py\<close>: the composited image is rotated, then
  mirrored; with \<open>DEBUG_MODE=1\<close> in the environment the image before the correction is
  saved beside the output. The result is the corrected image and the files saved here.
\<close>

definition orientation_stage ::
  "bool \<Rightarrow> string \<Rightarrow> 'p image \<Rightarrow> 'p image \<times> (string \<times> 'p image) list" where
  "orientation_stage debug_mode output_path combined_map =
     (let transformed_map = rotate_180 combined_map;
          transformed_map = mirror transformed_map;
          saved = (if debug_mode
                   then [(str_replace ''.png'' ''_original.png'' output_path, combined_map)]
                   else [])
      in (transformed_map, saved))"

text \<open>The vertical flip: the rows in the opposite order, each row as it was.\<close>

definition flip_top_bottom :: "'p image \<Rightarrow> 'p image" where
  "flip_top_bottom img = rev img"

section \<open>Format probing (direct\_approach.py)\<close>

text \<open>
  \<open>np.frombuffer(bytes, dtype)\<close> reads consecutive groups of \<open>bytes_per_pixel\<close>
  bytes, one element each; an element is kept as its group of bytes in memory order
  (the machine's byte order, little-endian on the platforms the integration runs on).
  numpy raises \<open>ValueError\<close> when the buffer is not a whole number of elements.
\<close>

type_synonym elem = "byte list"

definition frombuffer :: "nat \<Rightarrow> byte list \<Rightarrow> error + elem list" where
  "frombuffer bpp bs =
     (if bpp = 0 \<or> length bs mod bpp \<noteq> 0 then Inl ValueError
      else Inr (map (\<lambda>i. take bpp (drop (i * bpp) bs)) [0..<length bs div bpp]))"

text \<open>
  The comparison \<open>grid == grid[0, 0]\<close>. Two integers of one width are equal exactly
  when their bytes are. Two \<open>float32\<close> values are equal when neither is a NaN and
  they have the same bits or are both a zero (IEEE 754).
\<close>

fun float32_is_nan :: "elem \<Rightarrow> bool" where
  "float32_is_nan [b0, b1, b2, b3] =
     (b3 AND 0x7F = 0x7F \<and> b2 AND 0x80 = 0x80 \<and> (b2 AND 0x7F \<noteq> 0 \<or> b1 \<noteq> 0 \<or> b0 \<noteq> 0))"
| "float32_is_nan bs = False"

fun float32_is_zero :: "elem \<Rightarrow> bool" where
  "float32_is_zero [b0, b1, b2, b3] = (b3 AND 0x7F = 0 \<and> b2 = 0 \<and> b1 = 0 \<and> b0 = 0)"
| "float32_is_zero bs = False"

definition elem_eq :: "string \<Rightarrow> elem \<Rightarrow> elem \<Rightarrow> bool" where
  "elem_eq dtype a b =
     (if dtype = ''float32''
      then \<not> float32_is_nan a \<and> \<not> float32_is_nan b \<and>
           (a = b \<or> (float32_is_zero a \<and> float32_is_zero b))
      else a = b)"

text \<open>Lines 17--25 of \<open>try_grid_format\<close>; \<open>None\<close> is the unsupported dtype.\<close>

definition bytes_per_pixel :: "string \<Rightarrow> nat option" where
  "bytes_per_pixel dtype =
     (if dtype = ''uint8'' then Some 1
      else if dtype = ''int16'' \<or> dtype = ''uint16'' then Some 2
      else if dtype = ''int32'' \<or> dtype = ''uint32'' \<or> dtype = ''float32'' then Some 4
      else None)"

text \<open>The dictionary \<open>try_grid_format\<close> returns.\<close>

record probe_result =
  header_size :: nat
  dtype :: string
  grid :: "elem ndarray"

text \<open>
  Lines 33--70: the loop over the header sizes. An exception inside the \<open>try\<close> is
  printed and the loop goes on with the next header size; so does a grid whose values
  are all the same. On a grid with no cell, \<open>grid[0, 0]\<close> raises \<open>IndexError\<close>,
  which is such an exception. Plotting the accepted grid to PNG files is a side effect
  that is not modelled.
\<close>

fun try_headers ::
  "byte list \<Rightarrow> nat \<Rightarrow> nat \<Rightarrow> string \<Rightarrow> nat \<Rightarrow> nat list \<Rightarrow> probe_result option" where
  "try_headers data width height dt bpp [] = None"
| "try_headers data width height dt bpp (header # rest) =
     (if length data < header + width * height * bpp
      then try_headers data width height dt bpp rest
      else
        case frombuffer bpp (take (width * height * bpp) (drop header data)) of
          Inl e \<Rightarrow> try_headers data width height dt bpp rest
        | Inr grid_data \<Rightarrow>
            if width * height \<le> length grid_data
            then
              (case np_reshape height width (take (width * height) grid_data) of
                 Inl e \<Rightarrow> try_headers data width height dt bpp rest
               | Inr g \<Rightarrow>
                   if width * height = 0
                   then try_headers data width height dt bpp rest
                   else if list_all (\<lambda>e. elem_eq dt e (cell g 0 0))
                             (take (width * height) grid_data)
                   then try_headers data width height dt bpp rest
                   else Some \<lparr>header_size = header, dtype = dt, grid = g\<rparr>)
            else try_headers data width height dt bpp rest)"

definition try_grid_format ::
  "byte list \<Rightarrow> nat \<Rightarrow> nat \<Rightarrow> string \<Rightarrow> string \<Rightarrow> probe_result option" where
  "try_grid_format data width height dt output_name =
     (case bytes_per_pixel dt of
        None \<Rightarrow> None
      | Some bpp \<Rightarrow>
          if length data < width * height * bpp then None
          else try_headers data width height dt bpp [0, 4, 8, 16, 32, 48, 64, 128])"

text \<open>Lines 81--90 of \<open>process_file\<close>, on the bytes read from the file: every dtype is
  tried in this order, and every result that is found is kept.\<close>

definition process_file :: "byte list \<Rightarrow> nat \<Rightarrow> nat \<Rightarrow> string \<Rightarrow> probe_result list" where
  "process_file data width height base_name =
     concat (map (\<lambda>dt. case try_grid_format data width height dt base_name of
                          None \<Rightarrow> []
                        | Some result \<Rightarrow> [result])
                 [''uint8'', ''int16'', ''uint16'', ''int32'', ''float32''])"

section \<open>Room segmentation (v2\_map\_converter.py)\<close>

text \<open>
  Coordinates are the source's tuples \<open>(x, y)\<close> of Python integers. The item
  assignment \<open>a[y, x] = v\<close> at an index inside the shape is \<open>np_set\<close>. The matrix
  \<open>visited\<close> has the shape of \<open>raw_map\<close> in every call the source makes
  (\<open>detect_rooms\<close> creates it with \<open>np.zeros((height, width), dtype=bool)\<close>), and
  \<open>flood_fill\<close> indexes both matrices only after the bounds check against
  \<open>raw_map.shape\<close>.
\<close>

type_synonym coord = "int \<times> int"

definition np_set :: "'a ndarray \<Rightarrow> int \<Rightarrow> int \<Rightarrow> 'a \<Rightarrow> 'a ndarray" where
  "np_set a y x v = a\<lparr>cell := (cell a)(y := (cell a y)(x := v))\<rparr>"

definition np_zeros_bool :: "int \<Rightarrow> int \<Rightarrow> bool ndarray" where
  "np_zeros_bool h w = \<lparr>nrows = h, ncols = w, cell = (\<lambda>y x. False)\<rparr>"

text \<open>The state of the loop of \<open>flood_fill\<close>: \<open>visited\<close>, \<open>queue\<close> and
  \<open>pixels\<close>.\<close>

type_synonym fill_state = "bool ndarray \<times> coord list \<times> coord list"

definition directions :: "(int \<times> int) list" where
  "directions = [(0, 1), (1, 0), (0, -1), (-1, 0)]"

text \<open>Lines 178--183: the body of the loop over the four directions, for the cell
  \<open>(cx, cy)\<close> that was popped.\<close>

fun neighbour :: "'a ndarray \<Rightarrow> 'a \<Rightarrow> int \<Rightarrow> int \<Rightarrow> int \<times> int \<Rightarrow> fill_state \<Rightarrow> fill_state" where
  "neighbour raw_map target_color cx cy (dx, dy) (visited, queue, pixels) =
     (let nx = cx + dx; ny = cy + dy in
      if 0 \<le> nx \<and> nx < ncols raw_map \<and> 0 \<le> ny \<and> ny < nrows raw_map \<and>
         \<not> cell visited ny nx \<and> cell raw_map ny nx = target_color
      then (np_set visited ny nx True, queue @ [(nx, ny)], pixels @ [(nx, ny)])
      else (visited, queue, pixels))"

text \<open>The cells inside the grid that are not yet marked: what the loop can still
  mark.\<close>

definition unvisited :: "'a ndarray \<Rightarrow> bool ndarray \<Rightarrow> coord set" where
  "unvisited raw_map visited =
     {(x, y). 0 \<le> x \<and> x < ncols raw_map \<and> 0 \<le> y \<and> y < nrows raw_map \<and> \<not> cell visited y x}"

definition fill_measure :: "'a ndarray \<Rightarrow> fill_state \<Rightarrow> nat" where
  "fill_measure raw_map st =
     (case st of (visited, queue, pixels) \<Rightarrow> card (unvisited raw_map visited) + length queue)"

lemma cell_np_set:
  "cell (np_set a y x v) y' x' = (if y' = y \<and> x' = x then v else cell a y' x')"
  by (simp add: np_set_def)

lemma shape_np_set: "nrows (np_set a y x v) = nrows a" "ncols (np_set a y x v) = ncols a"
  by (simp_all add: np_set_def)

lemma finite_unvisited: "finite (unvisited raw_map visited)"
proof -
  have "unvisited raw_map visited \<subseteq> {0..<ncols raw_map} \<times> {0..<nrows raw_map}"
    by (auto simp: unvisited_def)
  then show ?thesis
    by (rule finite_subset) simp
qed

lemma unvisited_np_set:
  "unvisited raw_map (np_set visited y x True) = unvisited raw_map visited - {(x, y)}"
  by (auto simp: unvisited_def cell_np_set)

lemma neighbour_measure:
  "fill_measure raw_map (neighbour raw_map target_color cx cy d st) = fill_measure raw_map st"
proof -
  obtain dx dy where d: "d = (dx, dy)" by (cases d)
  obtain visited queue pixels where st: "st = (visited, queue, pixels)" by (cases st)
  show ?thesis
  proof (cases "0 \<le> cx + dx \<and> cx + dx < ncols raw_map \<and> 0 \<le> cy + dy \<and> cy + dy < nrows raw_map \<and>
         \<not> cell visited (cy + dy) (cx + dx) \<and> cell raw_map (cy + dy) (cx + dx) = target_color")
    case True
    then have mem: "(cx + dx, cy + dy) \<in> unvisited raw_map visited"
      by (simp add: unvisited_def)
    then have "card (unvisited raw_map visited) \<noteq> 0"
      using finite_unvisited [of raw_map visited] by auto
    moreover have "card (unvisited raw_map visited - {(cx + dx, cy + dy)}) =
        card (unvisited raw_map visited) - 1"
      using mem finite_unvisited [of raw_map visited] by simp
    ultimately show ?thesis
      using True by (simp add: d st fill_measure_def unvisited_np_set Let_def)
  next
    case False
    then show ?thesis
      by (auto simp: d st fill_measure_def Let_def)
  qed
qed

lemma fold_neighbour_measure:
  "fill_measure raw_map (fold (neighbour raw_map target_color cx cy) ds st) =
     fill_measure raw_map st"
  by (induction ds arbitrary: st) (simp_all add: neighbour_measure)

text \<open>Lines 175--183: the loop \<open>while queue\<close>, with \<open>queue.pop(0)\<close> taking the
  head. It ends because every turn takes one cell from the queue and adds to the queue
  only cells that it marks.\<close>

function flood_loop :: "'a ndarray \<Rightarrow> 'a \<Rightarrow> fill_state \<Rightarrow> fill_state" where
  "flood_loop raw_map target_color (visited, [], pixels) = (visited, [], pixels)"
| "flood_loop raw_map target_color (visited, (cx, cy) # queue, pixels) =
     flood_loop raw_map target_color
       (fold (neighbour raw_map target_color cx cy) directions (visited, queue, pixels))"
  by pat_completeness auto
termination
proof (relation "measure (\<lambda>(raw_map, target_color, st). fill_measure raw_map st)")
  show "wf (measure (\<lambda>(raw_map, target_color, st). fill_measure raw_map st))"
    by simp
next
  fix raw_map :: "'a ndarray" and target_color :: 'a and visited cx cy queue pixels
  have "fill_measure raw_map
          (fold (neighbour raw_map target_color cx cy) directions (visited, queue, pixels)) <
        fill_measure raw_map (visited, (cx, cy) # queue, pixels)"
    by (simp add: fold_neighbour_measure) (simp add: fill_measure_def)
  then show "((raw_map, target_color,
         fold (neighbour raw_map target_color cx cy) directions (visited, queue, pixels)),
        raw_map, target_color, visited, (cx, cy) # queue, pixels)
       \<in> measure (\<lambda>(raw_map, target_color, st). fill_measure raw_map st)"
    by simp
qed

text \<open>Lines 164--185. The result is the list \<open>pixels\<close> and the matrix \<open>visited\<close>
  as the call leaves it (the source mutates it in place). \<open>replacement_color\<close> is a
  parameter the source never reads.\<close>

definition flood_fill ::
  "'a ndarray \<Rightarrow> int \<Rightarrow> int \<Rightarrow> 'a \<Rightarrow> 'a \<Rightarrow> bool ndarray \<Rightarrow> coord list \<times> bool ndarray" where
  "flood_fill raw_map x y target_color replacement_color visited =
     (let height = nrows raw_map; width = ncols raw_map in
      if x < 0 \<or> y < 0 \<or> x \<ge> width \<or> y \<ge> height \<or>
         cell visited y x \<or> cell raw_map y x \<noteq> target_color
      then ([], visited)
      else
        (case flood_loop raw_map target_color (np_set visited y x True, [(x, y)], [(x, y)]) of
           (visited', queue', pixels') \<Rightarrow> (pixels', visited')))"

text \<open>
  What the specification relates the code to. A cell can be filled when it lies in the
  grid, is not marked and has the target value; two cells are adjacent when they are
  4-neighbours; the cells reachable from a seed are those joined to it by a path of
  adjacent cells that can be filled. \<open>fill_inv\<close> is the invariant of the loop of
  \<open>flood_fill\<close>, and \<open>scan_inv\<close> the one of its inner loop over the directions.
\<close>

definition fillable :: "'a ndarray \<Rightarrow> 'a \<Rightarrow> bool ndarray \<Rightarrow> coord \<Rightarrow> bool" where
  "fillable raw_map target_color visited p =
     (case p of (x, y) \<Rightarrow>
        0 \<le> x \<and> x < ncols raw_map \<and> 0 \<le> y \<and> y < nrows raw_map \<and>
        \<not> cell visited y x \<and> cell raw_map y x = target_color)"

definition adjacent :: "coord \<Rightarrow> coord \<Rightarrow> bool" where
  "adjacent p q = (\<bar>fst p - fst q\<bar> + \<bar>snd p - snd q\<bar> = 1)"

inductive reachable :: "'a ndarray \<Rightarrow> 'a \<Rightarrow> bool ndarray \<Rightarrow> coord \<Rightarrow> coord \<Rightarrow> bool"
  for raw_map target_color visited seed where
  reach_seed: "fillable raw_map target_color visited seed \<Longrightarrow>
     reachable raw_map target_color visited seed seed"
| reach_step: "reachable raw_map target_color visited seed p \<Longrightarrow> adjacent p q \<Longrightarrow>
     fillable raw_map target_color visited q \<Longrightarrow>
     reachable raw_map target_color visited seed q"

definition fill_inv ::
  "'a ndarray \<Rightarrow> 'a \<Rightarrow> bool ndarray \<Rightarrow> coord \<Rightarrow> coord set \<Rightarrow> fill_state \<Rightarrow> bool" where
  "fill_inv raw_map target_color v0 seed pending st =
     (case st of (visited, queue, pixels) \<Rightarrow>
        nrows visited = nrows v0 \<and> ncols visited = ncols v0 \<and>
        (\<forall>x y. cell visited y x = (cell v0 y x \<or> (x, y) \<in> set pixels)) \<and>
        distinct pixels \<and> pixels \<noteq> [] \<and> hd pixels = seed \<and>
        (\<forall>p \<in> set pixels. reachable raw_map target_color v0 seed p) \<and>
        set queue \<subseteq> set pixels \<and>
        (\<forall>p \<in> set pixels - set queue - pending. \<forall>q.
            adjacent p q \<and> fillable raw_map target_color v0 q \<longrightarrow> q \<in> set pixels))"

definition scan_inv ::
  "'a ndarray \<Rightarrow> 'a \<Rightarrow> bool ndarray \<Rightarrow> coord \<Rightarrow> coord \<Rightarrow> (int \<times> int) set \<Rightarrow> fill_state \<Rightarrow> bool" where
  "scan_inv raw_map target_color v0 seed c ds st =
     (fill_inv raw_map target_color v0 seed {c} st \<and>
      c \<in> set (snd (snd st)) \<and>
      (\<forall>d \<in> ds. fillable raw_map target_color v0 (fst c + fst d, snd c + snd d) \<longrightarrow>
          (fst c + fst d, snd c + snd d) \<in> set (snd (snd st))))"

text \<open>Lines 196--199 of \<open>detect_rooms\<close>: the body of the double loop at the cell
  \<open>(x, y)\<close>, on the state \<open>visited\<close>, \<open>room_segments\<close>. \<open>min_room_size\<close> is a
  Python integer (100 by default).\<close>

fun scan_cell ::
  "byte ndarray \<Rightarrow> int \<Rightarrow> coord \<Rightarrow> bool ndarray \<times> coord list list \<Rightarrow>
   bool ndarray \<times> coord list list" where
  "scan_cell raw_map min_room_size (x, y) (visited, room_segments) =
     (if \<not> cell visited y x \<and> cell raw_map y x = 0
      then (case flood_fill raw_map x y 0 1 visited of
              (area, visited') \<Rightarrow>
                (visited',
                 if min_room_size < int (length area) then room_segments @ [area]
                 else room_segments))
      else (visited, room_segments))"

text \<open>Lines 194--195: \<open>for y in range(height): for x in range(width)\<close>, the cells
  row by row.\<close>

definition scan_order :: "'a ndarray \<Rightarrow> coord list" where
  "scan_order raw_map =
     concat (map (\<lambda>y. map (\<lambda>x. (x, y)) [0..ncols raw_map - 1]) [0..nrows raw_map - 1])"

text \<open>Line 202: \<open>room_segments.sort(key=lambda x: len(x), reverse=True)\<close>. Python's sort
  is stable, also with \<open>reverse=True\<close>: CPython reverses the list, sorts it and reverses
  it again, so that rooms of one size stay in the order they were found.\<close>

definition sort_largest_first :: "'a list list \<Rightarrow> 'a list list" where
  "sort_largest_first xs = rev (sort_key length (rev xs))"

text \<open>Lines 187--203.\<close>

definition detect_rooms :: "byte ndarray \<Rightarrow> int \<Rightarrow> coord list list" where
  "detect_rooms raw_map min_room_size =
     (let height = nrows raw_map; width = ncols raw_map;
          visited = np_zeros_bool height width
      in sort_largest_first
           (snd (fold (scan_cell raw_map min_room_size) (scan_order raw_map) (visited, []))))"

text \<open>The lists returned by the successive calls of \<open>flood_fill\<close> in a pass over
  \<open>seeds\<close>, kept or not: the same loop as \<open>scan_cell\<close>, recording every area. Since
  \<open>flood_fill\<close> appends a cell to \<open>pixels\<close> exactly when it marks it, the
  concatenation of these lists is the sequence of all marks of the pass.\<close>

fun fills :: "byte ndarray \<Rightarrow> coord list \<Rightarrow> bool ndarray \<Rightarrow> coord list list" where
  "fills raw_map [] visited = []"
| "fills raw_map ((x, y) # seeds) visited =
     (if \<not> cell visited y x \<and> cell raw_map y x = 0
      then (case flood_fill raw_map x y 0 1 visited of
              (area, visited') \<Rightarrow> area # fills raw_map seeds visited')
      else fills raw_map seeds visited)"

text \<open>The matrix \<open>np.zeros((height, width), dtype=bool)\<close> a pass starts from; a free
  cell is a cell of the grid with value 0; the component of a cell is the set of free
  cells joined to it by 4-neighbour steps through free cells.\<close>

definition no_marks :: "'a ndarray \<Rightarrow> bool ndarray" where
  "no_marks raw_map = np_zeros_bool (nrows raw_map) (ncols raw_map)"

definition free_cell :: "byte ndarray \<Rightarrow> coord \<Rightarrow> bool" where
  "free_cell raw_map p = fillable raw_map 0 (no_marks raw_map) p"

definition component :: "byte ndarray \<Rightarrow> coord \<Rightarrow> coord set" where
  "component raw_map seed = {p. reachable raw_map 0 (no_marks raw_map) seed p}"

definition in_grid :: "'a ndarray \<Rightarrow> coord \<Rightarrow> bool" where
  "in_grid raw_map p =
     (0 \<le> fst p \<and> fst p < ncols raw_map \<and> 0 \<le> snd p \<and> snd p < nrows raw_map)"

text \<open>A map of one row with two free cells.\<close>

definition two_free :: "byte ndarray" where
  "two_free = \<lparr>nrows = 1, ncols = 2, cell = (\<lambda>y x. 0)\<rparr>"

text \<open>The marks of a pass are closed when no free cell that is marked has a free
  4-neighbour that is not: the marked free cells are whole components.\<close>

definition marked :: "bool ndarray \<Rightarrow> coord \<Rightarrow> bool" where
  "marked visited p = cell visited (snd p) (fst p)"

definition closed_marks :: "byte ndarray \<Rightarrow> bool ndarray \<Rightarrow> bool" where
  "closed_marks raw_map visited =
     (\<forall>p q. marked visited p \<and> free_cell raw_map p \<and> adjacent p q \<and> free_cell raw_map q
        \<longrightarrow> marked visited q)"

text \<open>A 2 x 3 map for examples: a free L-shaped region of three cells, an obstacle,
  an unknown cell and a free cell cut off from the others.
  \<^verbatim>\<open>  0   0  255\<close>
  \<^verbatim>\<open>  0  127  0\<close>\<close>

definition example_map :: "byte ndarray" where
  "example_map =
     \<lparr>nrows = 2, ncols = 3, cell = (\<lambda>y x. [0, 0, 255, 0, 127, 0] ! nat (y * 3 + x))\<rparr>"

section \<open>Overlay drawing (create\_map\_image)\<close>

text \<open>
  The write \<open>img[y, x, 0:3] = colour\<close> as numpy performs it on an array of shape
  \<open>(nrows, ncols, 4)\<close>: an index from \<open>-n\<close> up to \<open>n - 1\<close> is accepted, a negative
  one counting from the end, and any other index raises \<open>IndexError\<close>.
\<close>

definition np_setitem_rgb :: "rgba ndarray \<Rightarrow> int \<Rightarrow> int \<Rightarrow> rgb \<Rightarrow> error + rgba ndarray" where
  "np_setitem_rgb img y x c =
     (if - nrows img \<le> y \<and> y < nrows img \<and> - ncols img \<le> x \<and> x < ncols img
      then Inr (np_set img (y mod nrows img) (x mod ncols img)
                  (set_rgb c (cell img (y mod nrows img) (x mod ncols img))))
      else Inl IndexError)"

text \<open>A \<open>for\<close> loop whose body may raise: the first exception ends the loop.\<close>

fun fold_err :: "('a \<Rightarrow> 's \<Rightarrow> error + 's) \<Rightarrow> 'a list \<Rightarrow> 's \<Rightarrow> error + 's" where
  "fold_err f [] s = Inr s"
| "fold_err f (a # as) s = (case f a s of Inl e \<Rightarrow> Inl e | Inr s' \<Rightarrow> fold_err f as s')"

text \<open>Lines 102--103 and 134--135: the write of one pixel behind its bounds check.\<close>

fun put_pixel :: "int \<Rightarrow> int \<Rightarrow> rgb \<Rightarrow> coord \<Rightarrow> rgba ndarray \<Rightarrow> error + rgba ndarray" where
  "put_pixel width height colour (x, y) img =
     (if 0 \<le> x \<and> x < width \<and> 0 \<le> y \<and> y < height
      then np_setitem_rgb img y x colour
      else Inr img)"

text \<open>The coordinates \<open>(cx + dx, cy + dy)\<close> of the double loop over
  \<open>range(-r, r + 1)\<close>, \<open>dx\<close> outside and \<open>dy\<close> inside.\<close>

definition square :: "coord \<Rightarrow> int \<Rightarrow> coord list" where
  "square c r =
     concat (map (\<lambda>dx. map (\<lambda>dy. (fst c + dx, snd c + dy)) [- r..r]) [- r..r])"

text \<open>Lines 96--103 with \<open>r = 3\<close> and lines 129--135 with \<open>r = 1\<close>: when the centre is
  on the canvas, the square around it is painted pixel by pixel; otherwise nothing is
  drawn.\<close>

definition stamp :: "int \<Rightarrow> int \<Rightarrow> rgb \<Rightarrow> int \<Rightarrow> coord \<Rightarrow> rgba ndarray \<Rightarrow> error + rgba ndarray" where
  "stamp width height colour r c img =
     (if 0 \<le> fst c \<and> fst c < width \<and> 0 \<le> snd c \<and> snd c < height
      then fold_err (put_pixel width height colour) (square c r) img
      else Inr img)"

definition draw_charger ::
  "int \<Rightarrow> int \<Rightarrow> int \<Rightarrow> int \<Rightarrow> rgba ndarray \<Rightarrow> error + rgba ndarray" where
  "draw_charger width height charger_pixel_x charger_pixel_y img =
     stamp width height (255, 0, 0) 3 (charger_pixel_x, charger_pixel_y) img"

text \<open>\<open>np.linspace(0, 1, n)\<close>: \<open>n\<close> evenly spaced values from 0 to 1, none when
  \<open>n = 0\<close>; in exact arithmetic.\<close>

definition linspace :: "nat \<Rightarrow> real list" where
  "linspace n =
     (if n = 1 then [0] else map (\<lambda>i. real i / real (n - 1)) [0..<n])"

text \<open>Lines 126--128: the points sampled on the edge from \<open>(x1, y1)\<close> to
  \<open>(x2, y2)\<close>, \<open>max(abs(x2-x1), abs(y2-y1))*3\<close> of them, each truncated with
  \<open>int(...)\<close>. The interpolation is exact here; the code interpolates in floating
  point, so that a sample whose exact value is an integer can land one pixel away from
  the point given here. A float sample still lies between the two end points, and
  whether it is drawn is decided by the same bounds check.\<close>

definition edge_points :: "coord \<Rightarrow> coord \<Rightarrow> coord list" where
  "edge_points p1 p2 =
     (case (p1, p2) of ((x1, y1), (x2, y2)) \<Rightarrow>
        map (\<lambda>t. (py_int (of_int x1 + t * of_int (x2 - x1)),
                   py_int (of_int y1 + t * of_int (y2 - y1))))
            (linspace (nat (max \<bar>x2 - x1\<bar> \<bar>y2 - y1\<bar> * 3))))"

definition draw_edge ::
  "int \<Rightarrow> int \<Rightarrow> rgb \<Rightarrow> coord \<times> coord \<Rightarrow> rgba ndarray \<Rightarrow> error + rgba ndarray" where
  "draw_edge width height colour e img =
     fold_err (stamp width height colour 1) (edge_points (fst e) (snd e)) img"

text \<open>Lines 121--123: the edge from each vertex to the next, the last one back to the
  first.\<close>

definition edges :: "coord list \<Rightarrow> (coord \<times> coord) list" where
  "edges pixel_vertices =
     map (\<lambda>i. (pixel_vertices ! i, pixel_vertices ! ((i + 1) mod length pixel_vertices)))
         [0..<length pixel_vertices]"

text \<open>Lines 119--135 (and 149--165 with blue): the outline of a polygon of at least three
  pixel vertices.\<close>

definition draw_polygon ::
  "int \<Rightarrow> int \<Rightarrow> rgb \<Rightarrow> coord list \<Rightarrow> rgba ndarray \<Rightarrow> error + rgba ndarray" where
  "draw_polygon width height colour pixel_vertices img =
     (if 3 \<le> length pixel_vertices
      then fold_err (draw_edge width height colour) (edges pixel_vertices) img
      else Inr img)"

text \<open>
  The raster has the shape of the canvas: \<open>create_map_image\<close> creates it with
  \<open>np.zeros((height, width, 4))\<close>. \<open>paints\<close> relates a raster to a later one of the
  same shape in which every pixel either is as before or lies on the canvas and has
  been given the overlay colour.
\<close>

definition canvas :: "int \<Rightarrow> int \<Rightarrow> rgba ndarray \<Rightarrow> bool" where
  "canvas width height img = (nrows img = height \<and> ncols img = width)"

definition paints :: "int \<Rightarrow> int \<Rightarrow> rgb \<Rightarrow> rgba ndarray \<Rightarrow> rgba ndarray \<Rightarrow> bool" where
  "paints width height colour img img' =
     (nrows img' = nrows img \<and> ncols img' = ncols img \<and>
      (\<forall>y x. cell img' y x = cell img y x \<or>
             (0 \<le> x \<and> x < width \<and> 0 \<le> y \<and> y < height \<and>
              cell img' y x = set_rgb colour (cell img y x))))"

definition outside_canvas :: "int \<Rightarrow> int \<Rightarrow> coord \<Rightarrow> bool" where
  "outside_canvas width height p =
     (\<not> (0 \<le> fst p \<and> fst p < width \<and> 0 \<le> snd p \<and> snd p < height))"

definition pixel_after :: "error + rgba ndarray \<Rightarrow> int \<Rightarrow> int \<Rightarrow> rgba option" where
  "pixel_after r y x = (case r of Inl e \<Rightarrow> None | Inr img \<Rightarrow> Some (cell img y x))"

definition white_pixel :: "rgba ndarray" where
  "white_pixel = \<lparr>nrows = 1, ncols = 1, cell = (\<lambda>y x. (255, 255, 255, 255))\<rparr>"

section \<open>The conversion call (create\_map\_image)\<close>

text \<open>Sequencing of steps that may raise: the first exception is the result.\<close>

definition bind_err :: "error + 'a \<Rightarrow> ('a \<Rightarrow> error + 'b) \<Rightarrow> error + 'b" where
  "bind_err m f = (case m of Inl e \<Rightarrow> Inl e | Inr a \<Rightarrow> f a)"

definition succeeds :: "error + 'a \<Rightarrow> bool" where
  "succeeds r = (case r of Inl e \<Rightarrow> False | Inr a \<Rightarrow> True)"

text \<open>
  The documents the call loads: \<open>map_record.json\<close> (the fields the code reads),
  \<open>charger_pose.json\<close> and \<open>area_info.json\<close>. Each area of \<open>forbidAreaValue\<close> and
  \<open>areaValue\<close> is kept as its list \<open>vertexs\<close> of world points in centimetres; a key
  that is absent is \<open>None\<close>.
\<close>

record map_info =
  info_width :: nat
  info_height :: nat
  info_resolution :: pyfloat
  info_x_min :: pyfloat
  info_y_min :: pyfloat

record charger_info =
  charger_pose :: "pyfloat \<times> pyfloat"
  charger_phi :: pyfloat

record area_info =
  forbidAreaValue :: "(pyfloat \<times> pyfloat) list list option"
  areaValue :: "(pyfloat \<times> pyfloat) list list option"

text \<open>Lines 112--117: the pixel vertices of one area, in order; the conversion of a
  coordinate may raise.\<close>

fun area_pixel_vertices ::
  "farith \<Rightarrow> pyfloat \<Rightarrow> pyfloat \<Rightarrow> pyfloat \<Rightarrow> (pyfloat \<times> pyfloat) list \<Rightarrow> error + coord list" where
  "area_pixel_vertices ar x_min y_min resolution [] = Inr []"
| "area_pixel_vertices ar x_min y_min resolution ((x, y) # vertices) =
     bind_err (polygon_pixel ar x x_min resolution) (\<lambda>px.
     bind_err (polygon_pixel ar y y_min resolution) (\<lambda>py.
     bind_err (area_pixel_vertices ar x_min y_min resolution vertices) (\<lambda>rest.
     Inr ((px, py) # rest))))"

text \<open>Lines 109--135 for one area, and the loop over the areas of one key (red for
  forbidden areas, blue for rooms).\<close>

definition draw_area ::
  "farith \<Rightarrow> map_info \<Rightarrow> rgb \<Rightarrow> (pyfloat \<times> pyfloat) list \<Rightarrow> rgba ndarray \<Rightarrow>
   error + rgba ndarray" where
  "draw_area ar mi colour vertices img =
     bind_err (area_pixel_vertices ar (info_x_min mi) (info_y_min mi) (info_resolution mi) vertices)
       (\<lambda>pv. draw_polygon (int (info_width mi)) (int (info_height mi)) colour pv img)"

definition draw_areas ::
  "farith \<Rightarrow> map_info \<Rightarrow> rgb \<Rightarrow> (pyfloat \<times> pyfloat) list list option \<Rightarrow> rgba ndarray \<Rightarrow>
   error + rgba ndarray" where
  "draw_areas ar mi colour areas img =
     (case areas of None \<Rightarrow> Inr img | Some as \<Rightarrow> fold_err (draw_area ar mi colour) as img)"

text \<open>Lines 54--165: everything the call computes in memory, from the size check to the
  last overlay.\<close>

definition render ::
  "farith \<Rightarrow> map_info \<Rightarrow> charger_info \<Rightarrow> area_info \<Rightarrow> byte list \<Rightarrow> error + rgba ndarray" where
  "render ar mi ci ai map_data =
     bind_err (map_array map_data (info_width mi) (info_height mi)) (\<lambda>arr.
     bind_err (charger_pixel ar (fst (charger_pose ci)) (info_x_min mi) (info_resolution mi)) (\<lambda>cpx.
     bind_err (charger_pixel ar (snd (charger_pose ci)) (info_y_min mi) (info_resolution mi)) (\<lambda>cpy.
     bind_err (draw_charger (int (info_width mi)) (int (info_height mi)) cpx cpy
                 (base_img arr (info_width mi) (info_height mi))) (\<lambda>img1.
     bind_err (draw_areas ar mi (255, 0, 0) (forbidAreaValue ai) img1) (\<lambda>img2.
     draw_areas ar mi (0, 0, 255) (areaValue ai) img2)))))"

text \<open>
  Every coordinate conversion of a call succeeds: the two of the charger pose, and those
  of every vertex of every area, in the code's own terms.
\<close>

definition areas_of :: "area_info \<Rightarrow> (pyfloat \<times> pyfloat) list list" where
  "areas_of ai =
     (case forbidAreaValue ai of None \<Rightarrow> [] | Some as \<Rightarrow> as) @
     (case areaValue ai of None \<Rightarrow> [] | Some as \<Rightarrow> as)"

definition coordinates_convert :: "farith \<Rightarrow> map_info \<Rightarrow> charger_info \<Rightarrow> area_info \<Rightarrow> bool" where
  "coordinates_convert ar mi ci ai =
     (succeeds (charger_pixel ar (fst (charger_pose ci)) (info_x_min mi) (info_resolution mi)) \<and>
      succeeds (charger_pixel ar (snd (charger_pose ci)) (info_y_min mi) (info_resolution mi)) \<and>
      list_all (\<lambda>vertices. succeeds (area_pixel_vertices ar (info_x_min mi) (info_y_min mi)
                                       (info_resolution mi) vertices))
               (areas_of ai))"

text \<open>
  Lines 167--193. The file system is the set of directories that exist and a map from
  paths to what the file there holds: \<open>RasterFile i\<close> is the image \<open>i\<close> as
  \<open>img_resized.save(output_path)\<close> writes it (a PNG for a path that ends in
  \<open>.png\<close>), \<open>Base64Text i\<close> the base64 text of the PNG encoding of \<open>i\<close>, and
  \<open>Truncated\<close> a file that was opened for writing by a write that then raised: it
  holds what had been written until then.

  \<open>Image.fromarray\<close> followed by \<open>resize\<close> is a library step that may raise (it does
  on an image without pixels): it is the parameter \<open>resize\<close>. What the operating system
  does is the environment: the directories \<open>os.makedirs\<close> creates for the output path
  before it returns or raises, whether it raises, and how each of the two writes ends.
  A write completes, fails with the file left as it was (it could not be opened, or the
  library removed what it had created; the in-memory encoding of the sidecar failing is
  of this kind), or fails midway (the file is left truncated). There is no cleanup: the \<open>except\<close> clause of the call only turns
  the exception into the result \<open>False\<close>. \<open>loaded\<close> is what reading the four input
  files gave: the inputs, or the exception raised while reading them.
\<close>

datatype 'i artifact = RasterFile 'i | Base64Text 'i | Truncated

record 'i filesystem =
  fs_dirs :: "string set"
  fs_files :: "string \<Rightarrow> 'i artifact option"

datatype write_outcome = Completes | FailsBefore | FailsMidway

record env =
  makedirs_creates :: "string \<Rightarrow> string set"
  makedirs_raises :: "string \<Rightarrow> bool"
  save_outcome :: "string \<Rightarrow> write_outcome"
  sidecar_outcome :: "string \<Rightarrow> write_outcome"

definition write_to ::
  "write_outcome \<Rightarrow> string \<Rightarrow> 'i artifact \<Rightarrow> 'i filesystem \<Rightarrow> bool \<times> 'i filesystem" where
  "write_to outcome path content fs =
     (case outcome of
        Completes \<Rightarrow> (True, fs\<lparr>fs_files := (fs_files fs)(path \<mapsto> content)\<rparr>)
      | FailsBefore \<Rightarrow> (False, fs)
      | FailsMidway \<Rightarrow> (False, fs\<lparr>fs_files := (fs_files fs)(path \<mapsto> Truncated)\<rparr>))"

type_synonym inputs = "map_info \<times> charger_info \<times> area_info \<times> byte list"

definition rendered :: "farith \<Rightarrow> error + inputs \<Rightarrow> error + rgba ndarray" where
  "rendered ar loaded =
     bind_err loaded (\<lambda>(mi, ci, ai, map_data). render ar mi ci ai map_data)"

definition base64_path :: "string \<Rightarrow> string" where
  "base64_path output_path = str_replace ''.png'' ''.base64.txt'' output_path"

definition create_map_image ::
  "farith \<Rightarrow> env \<Rightarrow> (rgba ndarray \<Rightarrow> error + 'i) \<Rightarrow> error + inputs \<Rightarrow> string \<Rightarrow>
   'i filesystem \<Rightarrow> bool \<times> 'i filesystem" where
  "create_map_image ar e resize loaded output_path fs =
     (case bind_err (rendered ar loaded) resize of
        Inl err \<Rightarrow> (False, fs)
      | Inr img_resized \<Rightarrow>
          let fs1 = fs\<lparr>fs_dirs := fs_dirs fs \<union> makedirs_creates e output_path\<rparr> in
          if makedirs_raises e output_path then (False, fs1)
          else
            let (saved, fs2) = write_to (save_outcome e output_path) output_path
                                 (RasterFile img_resized) fs1 in
            if \<not> saved then (False, fs2)
            else write_to (sidecar_outcome e (base64_path output_path)) (base64_path output_path)
                   (Base64Text img_resized) fs2)"


text \<open>
  The grid of scenario A as the input of a call, with metadata that floats represent
  exactly, a charger on pixel (2, 2) and one forbidden area left of the canvas. Three
  environments: one in which every step of the operating system succeeds, one in which
  the sidecar cannot be opened for writing, and one in which the raster write fails
  midway after \<open>os.makedirs\<close> has created the directory \<open>out\<close>. The empty file
  system to start from.
\<close>

definition scenario_a_inputs :: inputs where
  "scenario_a_inputs =
     (\<lparr>info_width = 4, info_height = 4, info_resolution = Finite (1/16),
        info_x_min = Finite 0, info_y_min = Finite 0\<rparr>,
      \<lparr>charger_pose = (Finite (1/8), Finite (1/8)), charger_phi = Finite 0\<rparr>,
      \<lparr>forbidAreaValue = Some [[(Finite (-100), Finite 0), (Finite (-50), Finite 100),
                                 (Finite (-150), Finite 0)]],
        areaValue = None\<rparr>,
      scenario_a)"

definition all_writable :: env where
  "all_writable =
     \<lparr>makedirs_creates = (\<lambda>p. {}), makedirs_raises = (\<lambda>p. False),
      save_outcome = (\<lambda>p. Completes), sidecar_outcome = (\<lambda>p. Completes)\<rparr>"


definition disk_full :: env where
  "disk_full =
     \<lparr>makedirs_creates = (\<lambda>p. {''out''}), makedirs_raises = (\<lambda>p. False),
      save_outcome = (\<lambda>p. FailsMidway), sidecar_outcome = (\<lambda>p. Completes)\<rparr>"

definition empty_fs :: "'i filesystem" where
  "empty_fs = \<lparr>fs_dirs = {}, fs_files = Map.empty\<rparr>"

section \<open>Properties of the grid decoder\<close>

lemma map_array_ok:
  "width * height \<le> length map_data \<Longrightarrow>
   map_array map_data width height =
     Inr \<lparr>nrows = int height, ncols = int width,
          cell = (\<lambda>y x. take (width * height) map_data ! (nat y * width + nat x))\<rparr>"
  by (simp add: map_array_def np_reshape_def mult.commute)

lemma row_major_index:
  fixes x y width height :: nat
  assumes "y < height" "x < width"
  shows "y * width + x < width * height"
proof -
  have "y * width + x < y * width + width" using assms by simp
  also have "\<dots> = (Suc y) * width" by simp
  also have "\<dots> \<le> height * width" using assms by (intro mult_le_mono1) simp
  finally show ?thesis by (simp add: mult.commute)
qed

lemma state_colour_inj: "state_colour s = state_colour s' \<Longrightarrow> s = s'"
  by (cases s; cases s') simp_all

text \<open>
  Claim C1. When the buffer holds at least \<open>width * height\<close> bytes, decoding yields an
  array, and every cell \<open>(y, x)\<close> of it is classified from the byte at the row-major
  position \<open>y * width + x\<close>: the unknown mask holds exactly for the value 127, the free
  mask exactly for 0, the obstacle mask exactly for every other value, and the pixel
  painted is the colour of the state the specification gives that byte. The three
  colours differ, so no fourth state exists.
\<close>

theorem grid_decoder_classifies:
  assumes "width * height \<le> length map_data" and "y < height" and "x < width"
  shows "\<exists>arr. map_array map_data width height = Inr arr \<and>
           (cell (unknown_mask arr) (int y) (int x) = (map_data ! (y * width + x) = 127)) \<and>
           (cell (free_mask arr) (int y) (int x) = (map_data ! (y * width + x) = 0)) \<and>
           (cell (obstacle_mask arr) (int y) (int x) =
              (map_data ! (y * width + x) \<noteq> 127 \<and> map_data ! (y * width + x) \<noteq> 0)) \<and>
           cell (base_img arr width height) (int y) (int x) =
              state_colour (spec_classify (map_data ! (y * width + x)))"
proof -
  have idx: "y * width + x < width * height"
    using assms(2,3) by (rule row_major_index)
  have rd: "take (width * height) map_data ! (y * width + x) = map_data ! (y * width + x)"
    using idx by simp
  show ?thesis
    unfolding map_array_ok [OF assms(1)]
    by (simp add: rd unknown_mask_def free_mask_def obstacle_mask_def base_img_def
        np_map_def np_map2_def np_zeros_def assign_where_def spec_classify_def Let_def)
qed

theorem grid_decoder_classifies_witness:
  "(4::nat) * 4 \<le> length scenario_a \<and>
   (\<exists>arr. map_array scenario_a 4 4 = Inr arr \<and>
      cell (unknown_mask arr) 1 1 \<and>
      cell (base_img arr 4 4) 1 1 = (200, 200, 200, 255))"
proof -
  have len: "(4::nat) * 4 \<le> length scenario_a"
    by (simp add: scenario_a_def)
  have v: "scenario_a ! 5 = 127"
    by (simp add: scenario_a_def)
  from grid_decoder_classifies [OF len, of 1 1]
  obtain arr where "map_array scenario_a 4 4 = Inr arr"
    and "cell (unknown_mask arr) (int 1) (int 1) = (scenario_a ! (1 * 4 + 1) = 127)"
    and "cell (base_img arr 4 4) (int 1) (int 1) =
           state_colour (spec_classify (scenario_a ! (1 * 4 + 1)))"
    by auto
  then show ?thesis
    using len by (auto simp: v spec_classify_def)
qed

text \<open>
  Claim C2. With positive dimensions, a buffer of at least \<open>width * height\<close> bytes
  always decodes; a shorter one fails with \<open>InsufficientData\<close>, and that outcome is
  the same for every buffer of that length: the check reads the length alone, before
  any cell is looked at.
\<close>

theorem decoding_succeeds_or_insufficient:
  assumes "0 < width" and "0 < height"
  shows "(width * height \<le> length map_data \<longrightarrow>
            (\<exists>arr. map_array map_data width height = Inr arr)) \<and>
         (length map_data < width * height \<longrightarrow>
            map_array map_data width height =
              Inl (InsufficientData (length map_data) width height)) \<and>
         (length map_data < width * height \<and> length other = length map_data \<longrightarrow>
            map_array other width height = map_array map_data width height)"
  by (simp add: map_array_def np_reshape_def mult.commute)

theorem decoding_succeeds_or_insufficient_witness:
  "(\<exists>arr. map_array scenario_a 4 4 = Inr arr) \<and>
   map_array (take 15 scenario_a) 4 4 = Inl (InsufficientData 15 4 4) \<and>
   map_array (replicate 15 0) 4 4 = map_array (take 15 scenario_a) 4 4"
proof -
  have a: "(4::nat) * 4 \<le> length scenario_a"
    by (simp add: scenario_a_def)
  have b: "length (take 15 scenario_a) < (4::nat) * 4"
    by (simp add: scenario_a_def)
  have c: "length (replicate 15 (0::byte)) = length (take 15 scenario_a)"
    by (simp add: scenario_a_def)
  have l: "length (take 15 scenario_a) = 15"
    by (simp add: scenario_a_def)
  have p: "(0::nat) < 4" by simp
  show ?thesis
    using decoding_succeeds_or_insufficient [OF p p, of scenario_a "replicate 15 0"]
      decoding_succeeds_or_insufficient [OF p p, of "take 15 scenario_a" "replicate 15 0"]
      a b c by (simp add: l)
qed

section \<open>Properties of the coordinate transform\<close>

lemma py_int_nonneg: "0 \<le> r \<Longrightarrow> py_int r = floor r"
  by (simp add: py_int_def)

lemma py_int_nonpos: "r \<le> 0 \<Longrightarrow> py_int r = ceiling r"
  by (cases "r = 0") (simp_all add: py_int_def)

lemma py_int_towards_zero: "\<bar>of_int (py_int r)\<bar> \<le> \<bar>r\<bar> \<and> \<bar>r - of_int (py_int r)\<bar> < 1"
  unfolding py_int_def by (cases "r < 0") (simp_all, linarith+)

lemma charger_pixel_quotient:
  "resolution \<noteq> Finite 0 \<Longrightarrow>
   charger_pixel ar w x_min resolution = int_of_float (fl_div ar (fl_sub ar w x_min) resolution)"
  by (simp add: charger_pixel_def py_truediv_def)

lemma polygon_pixel_charger_pixel:
  "polygon_pixel ar w x_min resolution =
   charger_pixel ar (fl_div ar w (Finite 100)) x_min resolution"
  by (simp add: polygon_pixel_def charger_pixel_def py_truediv_def)

lemma exact_arith_finite:
  "fl_sub exact_arith (Finite x) (Finite y) = Finite (x - y)"
  "fl_div exact_arith (Finite x) (Finite y) = Finite (x / y)"
  by (simp_all add: exact_arith_def)

text \<open>
  Claim C3, as stated, fails: the code rounds with \<open>int(...)\<close>, which truncates towards
  zero, so a world coordinate below the origin is rounded up, not down. A charger at
  world -3 with origin 0 and resolution 2 lands on pixel -1; the floor of -1.5 is -2.
  (The difference -3 and the quotient -1.5 are floats, so no rounding takes place.)
\<close>

theorem world_to_pixel_not_floor:
  "charger_pixel exact_arith (Finite (-3)) (Finite 0) (Finite 2) = Inr (-1) \<and>
   floor ((-3 - 0) / (2::real)) = (-2::int)"
  by (simp add: charger_pixel_def py_truediv_def int_of_float_def exact_arith_def py_int_def)

text \<open>
  Claim C3, amended. Whatever floating point rounds to: for a resolution other than
  zero, the pixel of a charger coordinate is \<open>int(...)\<close> of the float quotient of the
  float difference \<open>world - origin\<close> by the resolution, and the pixel of a polygon
  coordinate is the same of \<open>world / 100.0\<close>: the polygon coordinate is divided by 100
  first, in floating point, the charger coordinate is not. Where that float quotient is
  the finite value \<open>q\<close>, the pixel is \<open>q\<close> truncated towards zero, which is the floor
  of \<open>q\<close> where \<open>q\<close> is not negative, its ceiling where it is not positive, and
  so one more than the floor where \<open>q\<close> is negative and not an integer; it is
  computed from the rounded quotient, not from the exact one. Where the
  quotient is an infinity the conversion raises \<open>OverflowError\<close>, where it is a NaN
  \<open>ValueError\<close>, and for a resolution of zero \<open>ZeroDivisionError\<close>.
\<close>

theorem world_to_pixel_truncates:
  "(resolution \<noteq> Finite 0 \<longrightarrow>
      charger_pixel ar w x_min resolution =
        int_of_float (fl_div ar (fl_sub ar w x_min) resolution) \<and>
      polygon_pixel ar w x_min resolution =
        int_of_float (fl_div ar (fl_sub ar (fl_div ar w (Finite 100)) x_min) resolution)) \<and>
   polygon_pixel ar w x_min resolution =
     charger_pixel ar (fl_div ar w (Finite 100)) x_min resolution \<and>
   (resolution \<noteq> Finite 0 \<and> fl_div ar (fl_sub ar w x_min) resolution = Finite q \<longrightarrow>
      charger_pixel ar w x_min resolution = Inr (py_int q)) \<and>
   \<bar>of_int (py_int q)\<bar> \<le> \<bar>q\<bar> \<and> \<bar>q - of_int (py_int q)\<bar> < 1 \<and>
   (0 \<le> q \<longrightarrow> py_int q = floor q) \<and>
   (q \<le> 0 \<longrightarrow> py_int q = ceiling q) \<and>
   (q < 0 \<and> of_int (floor q) \<noteq> q \<longrightarrow> py_int q = floor q + 1) \<and>
   (resolution \<noteq> Finite 0 \<and>
    (fl_div ar (fl_sub ar w x_min) resolution = PlusInf \<or>
     fl_div ar (fl_sub ar w x_min) resolution = MinusInf) \<longrightarrow>
      charger_pixel ar w x_min resolution = Inl OverflowError) \<and>
   (resolution \<noteq> Finite 0 \<and> fl_div ar (fl_sub ar w x_min) resolution = NaN \<longrightarrow>
      charger_pixel ar w x_min resolution = Inl ValueError) \<and>
   (resolution = Finite 0 \<longrightarrow>
      charger_pixel ar w x_min resolution = Inl ZeroDivisionError \<and>
      polygon_pixel ar w x_min resolution = Inl ZeroDivisionError)"
proof -
  have a: "resolution \<noteq> Finite 0 \<longrightarrow>
      charger_pixel ar w x_min resolution =
        int_of_float (fl_div ar (fl_sub ar w x_min) resolution) \<and>
      polygon_pixel ar w x_min resolution =
        int_of_float (fl_div ar (fl_sub ar (fl_div ar w (Finite 100)) x_min) resolution)"
    by (simp add: polygon_pixel_charger_pixel charger_pixel_quotient)
  have b: "resolution \<noteq> Finite 0 \<and> fl_div ar (fl_sub ar w x_min) resolution = Finite q \<longrightarrow>
      charger_pixel ar w x_min resolution = Inr (py_int q)"
    by (simp add: charger_pixel_quotient int_of_float_def)
  have c1: "0 \<le> q \<longrightarrow> py_int q = floor q"
    by (simp add: py_int_nonneg)
  have c2: "q \<le> 0 \<longrightarrow> py_int q = ceiling q"
    by (simp add: py_int_nonpos)
  have c3: "q < 0 \<and> of_int (floor q) \<noteq> q \<longrightarrow> py_int q = floor q + 1"
    by (auto simp: py_int_def ceiling_altdef)
  note t = py_int_towards_zero [of q]
  have d: "resolution \<noteq> Finite 0 \<and>
    (fl_div ar (fl_sub ar w x_min) resolution = PlusInf \<or>
     fl_div ar (fl_sub ar w x_min) resolution = MinusInf) \<longrightarrow>
      charger_pixel ar w x_min resolution = Inl OverflowError"
    by (auto simp: charger_pixel_quotient int_of_float_def)
  have e: "resolution \<noteq> Finite 0 \<and> fl_div ar (fl_sub ar w x_min) resolution = NaN \<longrightarrow>
      charger_pixel ar w x_min resolution = Inl ValueError"
    by (simp add: charger_pixel_quotient int_of_float_def)
  have f: "resolution = Finite 0 \<longrightarrow>
      charger_pixel ar w x_min resolution = Inl ZeroDivisionError \<and>
      polygon_pixel ar w x_min resolution = Inl ZeroDivisionError"
    by (simp add: polygon_pixel_def charger_pixel_def py_truediv_def)
  show ?thesis
    by (intro conjI a polygon_pixel_charger_pixel b t [THEN conjunct1] t [THEN conjunct2]
          c1 c2 c3 d e f)
qed

theorem world_to_pixel_truncates_witness:
  "charger_pixel exact_arith (Finite (1/8)) (Finite 0) (Finite (1/16)) = Inr 2 \<and>
   polygon_pixel exact_arith (Finite 50) (Finite 0) (Finite (1/4)) = Inr 2 \<and>
   py_int (-3/2) = -1 \<and> py_int (3/2) = 1"
proof -
  note c = world_to_pixel_truncates
             [of "Finite (1/16)" exact_arith "Finite (1/8)" "Finite 0" "3/2"]
  note p = world_to_pixel_truncates
             [of "Finite (1/4)" exact_arith "Finite 50" "Finite 0" "-3/2"]
  have "charger_pixel exact_arith (Finite (1/8)) (Finite 0) (Finite (1/16)) =
          int_of_float (fl_div exact_arith (fl_sub exact_arith (Finite (1/8)) (Finite 0))
                          (Finite (1/16)))"
    using c by simp
  moreover have "polygon_pixel exact_arith (Finite 50) (Finite 0) (Finite (1/4)) =
          int_of_float (fl_div exact_arith
            (fl_sub exact_arith (fl_div exact_arith (Finite 50) (Finite 100)) (Finite 0))
            (Finite (1/4)))"
    using p by simp
  moreover have "py_int (3/2) = floor (3/2::real)"
    using c by simp
  moreover have "py_int (-3/2) = ceiling (-3/2::real)"
    using p by simp
  ultimately show ?thesis
    by (simp add: exact_arith_finite int_of_float_def py_int_def)
qed

section \<open>Properties of the orientation correction\<close>

text \<open>
  Claim C7. Whatever the image, the output path and the debug switch, the corrected
  image is the mirror of the 180 degree rotation of the composited image, nothing else
  is applied to it in this stage, and the two together are the vertical flip.
\<close>

theorem orientation_is_rotate_then_mirror:
  "fst (orientation_stage debug_mode output_path combined_map) =
     mirror (rotate_180 combined_map) \<and>
   mirror (rotate_180 combined_map) = flip_top_bottom combined_map \<and>
   fst (orientation_stage True output_path combined_map) =
     fst (orientation_stage False output_path' combined_map)"
  by (simp add: orientation_stage_def mirror_def rotate_180_def flip_top_bottom_def
      rev_map [symmetric] Let_def)

lemma orientation_example:
  "fst (orientation_stage False ''map.png'' [[1, 2, 3], [4, 5, 6::nat]]) =
     [[4, 5, 6], [1, 2, 3]]"
  by (simp add: orientation_stage_def mirror_def rotate_180_def)

section \<open>Properties of the format prober\<close>

lemma frombuffer_uint8: "frombuffer (Suc 0) bs = Inr (map (\<lambda>b. [b]) bs)"
proof -
  have "map (\<lambda>i. take (Suc 0) (drop i bs)) [0..<length bs] = map (\<lambda>b. [b]) bs"
    by (rule nth_equalityI) (simp_all add: take_Suc_conv_app_nth hd_drop_conv_nth
        take_Suc)
  then show ?thesis
    by (simp add: frombuffer_def)
qed

lemma two_values_not_all_equal:
  assumes "1 < card (set bs)"
  shows "\<not> list_all (\<lambda>e. e = [bs ! 0]) (map (\<lambda>b. [b]) bs)"
proof
  assume "list_all (\<lambda>e. e = [bs ! 0]) (map (\<lambda>b. [b]) bs)"
  then have "set bs \<subseteq> {bs ! 0}"
    by (auto simp: list_all_iff)
  then have "card (set bs) \<le> card {bs ! 0}"
    by (intro card_mono) simp_all
  with assms show False by simp
qed

lemma try_headers_uint8_0:
  assumes "length data = width * height" and "1 < card (set data)"
  shows "try_headers data width height ''uint8'' (Suc 0) (0 # rest) =
           Some \<lparr>header_size = 0, dtype = ''uint8'',
                 grid = \<lparr>nrows = int height, ncols = int width,
                         cell = (\<lambda>y x. map (\<lambda>b. [b]) data ! (nat y * width + nat x))\<rparr>\<rparr>"
proof -
  have ne: "data \<noteq> []" using assms(2) by auto
  then have "length data \<noteq> 0" by simp
  then have pos: "width * height \<noteq> 0" unfolding assms(1) .
  have fb: "frombuffer (Suc 0) (take (width * height) data) = Inr (map (\<lambda>b. [b]) data)"
    using assms(1) by (simp add: frombuffer_uint8)
  have rs: "np_reshape height width (map (\<lambda>b. [b]) data) =
              Inr \<lparr>nrows = int height, ncols = int width,
                   cell = (\<lambda>y x. map (\<lambda>b. [b]) data ! (nat y * width + nat x))\<rparr>"
    using assms(1) by (simp add: np_reshape_def mult.commute)
  have na: "\<not> list_all (\<lambda>e. elem_eq ''uint8'' e [data ! 0]) (map (\<lambda>b. [b]) data)"
    using two_values_not_all_equal [OF assms(2)] by (simp add: elem_eq_def)
  have tk: "take (width * height) (map (\<lambda>b. [b]) data) = map (\<lambda>b. [b]) data"
    using assms(1) by simp
  have c0: "map (\<lambda>b. [b]) data ! 0 = [data ! 0]"
    using ne by (simp add: nth_map)
  show ?thesis
    using pos assms(1) na
    by (simp add: fb frombuffer_uint8 rs tk c0)
qed

lemma try_uint8_header_0:
  assumes "length data = width * height" and "1 < card (set data)"
  shows "try_grid_format data width height ''uint8'' output_name =
           Some \<lparr>header_size = 0, dtype = ''uint8'',
                 grid = \<lparr>nrows = int height, ncols = int width,
                         cell = (\<lambda>y x. map (\<lambda>b. [b]) data ! (nat y * width + nat x))\<rparr>\<rparr>"
  using assms(1)
  by (simp add: try_grid_format_def bytes_per_pixel_def try_headers_uint8_0 [OF assms]
      del: try_headers.simps)

lemma try_wider_fails:
  assumes "length data = width * height" and "data \<noteq> []"
    and "dt \<in> {''int16'', ''uint16'', ''int32'', ''float32''}"
  shows "try_grid_format data width height dt output_name = None"
proof -
  have "length data \<noteq> 0" using assms(2) by simp
  then have "0 < width * height" unfolding assms(1) by simp
  then show ?thesis
    using assms(1,3) by (auto simp: try_grid_format_def bytes_per_pixel_def)
qed


text \<open>
  Claim C6. A buffer of exactly \<open>width * height\<close> bytes that holds at least two
  distinct byte values is resolved by the prober to exactly one layout: header offset
  0 with one-byte (\<open>uint8\<close>) elements, whose grid is the buffer in row-major order.
  Every wider element type is rejected by the size check.
\<close>

theorem prober_resolves_offset_0_uint8:
  assumes "length data = width * height" and "1 < card (set data)"
  shows "\<exists>g. process_file data width height base_name =
                 [\<lparr>header_size = 0, dtype = ''uint8'', grid = g\<rparr>] \<and>
              bytes_per_pixel ''uint8'' = Some 1 \<and>
              nrows g = int height \<and> ncols g = int width \<and>
              (\<forall>y < height. \<forall>x < width. cell g (int y) (int x) = [data ! (y * width + x)])"
proof -
  have ne: "data \<noteq> []" using assms(2) by auto
  have idx: "y * width + x < length data" if "y < height" "x < width" for x y
    unfolding assms(1) using that by (rule row_major_index)
  have "process_file data width height base_name =
          [\<lparr>header_size = 0, dtype = ''uint8'',
            grid = \<lparr>nrows = int height, ncols = int width,
                    cell = (\<lambda>y x. map (\<lambda>b. [b]) data ! (nat y * width + nat x))\<rparr>\<rparr>]"
    by (simp add: process_file_def try_uint8_header_0 [OF assms]
        try_wider_fails [OF assms(1) ne])
  then show ?thesis
    by (simp add: bytes_per_pixel_def idx)
qed

theorem prober_resolves_offset_0_uint8_witness:
  "length [0, 127, 0, 0 :: byte] = 2 * 2 \<and> 1 < card (set [0, 127, 0, 0 :: byte]) \<and>
   (\<exists>g. process_file [0, 127, 0, 0] 2 2 ''recordmap'' =
           [\<lparr>header_size = 0, dtype = ''uint8'', grid = g\<rparr>] \<and> cell g 0 1 = [127])"
proof -
  have l: "length [0, 127, 0, 0 :: byte] = 2 * 2" by simp
  have c: "1 < card (set [0, 127, 0, 0 :: byte])" by (simp add: card_insert_if)
  from prober_resolves_offset_0_uint8 [OF l c, of "''recordmap''"]
  obtain g where p: "process_file [0, 127, 0, 0] 2 2 ''recordmap'' =
                       [\<lparr>header_size = 0, dtype = ''uint8'', grid = g\<rparr>]"
    and g: "\<forall>y < 2. \<forall>x < 2. cell g (int y) (int x) = [[0, 127, 0, 0 :: byte] ! (y * 2 + x)]"
    by blast
  from g have "cell g (int 0) (int 1) = [[0, 127, 0, 0 :: byte] ! (0 * 2 + 1)]"
    by (metis pos2 one_less_numeral_iff semiring_norm(76))
  then have "cell g 0 1 = [127]" by simp
  with p l c show ?thesis by blast
qed

section \<open>Properties of the flood fill\<close>

lemma adjacent_directions:
  "adjacent p q = (\<exists>d \<in> set directions. q = (fst p + fst d, snd p + snd d))"
proof (cases p; cases q)
  fix a b c d :: int
  assume "p = (a, b)" "q = (c, d)"
  then show ?thesis
    unfolding adjacent_def directions_def by (simp, linarith)
qed

lemma neighbour_scan_inv:
  assumes inv: "scan_inv raw_map target_color v0 seed (cx, cy) ds st"
    and d: "d \<in> set directions"
  shows "scan_inv raw_map target_color v0 seed (cx, cy) (insert d ds)
           (neighbour raw_map target_color cx cy d st)"
proof -
  obtain dx dy where dd: "d = (dx, dy)" by (cases d)
  obtain visited queue pixels where st: "st = (visited, queue, pixels)" by (cases st)
  define q where "q = (cx + dx, cy + dy)"
  from inv have fi: "fill_inv raw_map target_color v0 seed {(cx, cy)} (visited, queue, pixels)"
    and cin: "(cx, cy) \<in> set pixels"
    and dirs_done: "\<forall>e \<in> ds. fillable raw_map target_color v0 (cx + fst e, cy + snd e) \<longrightarrow>
                 (cx + fst e, cy + snd e) \<in> set pixels"
    by (simp_all add: scan_inv_def st)
  from fi have shape: "nrows visited = nrows v0" "ncols visited = ncols v0"
    and vis: "\<forall>x y. cell visited y x = (cell v0 y x \<or> (x, y) \<in> set pixels)"
    and dist: "distinct pixels" and ne: "pixels \<noteq> []" and hd: "hd pixels = seed"
    and reach: "\<forall>p \<in> set pixels. reachable raw_map target_color v0 seed p"
    and qsub: "set queue \<subseteq> set pixels"
    and closed: "\<forall>p \<in> set pixels - set queue - {(cx, cy)}. \<forall>r.
                   adjacent p r \<and> fillable raw_map target_color v0 r \<longrightarrow> r \<in> set pixels"
    unfolding fill_inv_def prod.case by blast+
  have adj: "adjacent (cx, cy) q"
    unfolding adjacent_directions q_def using d dd by force
  show ?thesis
  proof (cases "0 \<le> cx + dx \<and> cx + dx < ncols raw_map \<and> 0 \<le> cy + dy \<and> cy + dy < nrows raw_map \<and>
         \<not> cell visited (cy + dy) (cx + dx) \<and> cell raw_map (cy + dy) (cx + dx) = target_color")
    case True
    have nv: "\<not> cell v0 (cy + dy) (cx + dx)" and fresh: "q \<notin> set pixels"
      using True vis unfolding q_def by blast+
    have f0: "fillable raw_map target_color v0 q"
      using True nv by (simp add: fillable_def q_def)
    have rq: "reachable raw_map target_color v0 seed q"
      using reach cin adj f0 by (blast intro: reach_step)
    have nb: "neighbour raw_map target_color cx cy d (visited, queue, pixels) =
                (np_set visited (cy + dy) (cx + dx) True, queue @ [q], pixels @ [q])"
      using True by (simp add: dd Let_def q_def)
    have c1: "\<forall>x y. cell (np_set visited (cy + dy) (cx + dx) True) y x =
                (cell v0 y x \<or> (x, y) \<in> set (pixels @ [q]))"
      using vis by (auto simp: cell_np_set q_def)
    have c2: "distinct (pixels @ [q])"
      using dist fresh by simp
    have c3: "pixels @ [q] \<noteq> []" "hd (pixels @ [q]) = seed"
      using ne hd by simp_all
    have c4: "\<forall>p \<in> set (pixels @ [q]). reachable raw_map target_color v0 seed p"
      using reach rq by simp
    have c5: "set (queue @ [q]) \<subseteq> set (pixels @ [q])"
      using qsub by auto
    have c6: "\<forall>p \<in> set (pixels @ [q]) - set (queue @ [q]) - {(cx, cy)}. \<forall>r.
                adjacent p r \<and> fillable raw_map target_color v0 r \<longrightarrow> r \<in> set (pixels @ [q])"
    proof (intro ballI allI impI)
      fix p r
      assume p: "p \<in> set (pixels @ [q]) - set (queue @ [q]) - {(cx, cy)}"
        and r: "adjacent p r \<and> fillable raw_map target_color v0 r"
      from p have "p \<in> set pixels - set queue - {(cx, cy)}" by auto
      with closed r have "r \<in> set pixels" by blast
      then show "r \<in> set (pixels @ [q])" by simp
    qed
    have "fill_inv raw_map target_color v0 seed {(cx, cy)}
            (np_set visited (cy + dy) (cx + dx) True, queue @ [q], pixels @ [q])"
      unfolding fill_inv_def prod.case shape_np_set
      using shape c1 c2 c3 c4 c5 c6 by blast
    moreover have "\<forall>e \<in> insert d ds. fillable raw_map target_color v0 (cx + fst e, cy + snd e) \<longrightarrow>
                 (cx + fst e, cy + snd e) \<in> set (pixels @ [q])"
      using dirs_done by (simp add: dd q_def)
    moreover have "(cx, cy) \<in> set (pixels @ [q])"
      using cin by simp
    ultimately show ?thesis
      by (simp add: scan_inv_def nb st)
  next
    case False
    then have nb: "neighbour raw_map target_color cx cy d (visited, queue, pixels) =
                     (visited, queue, pixels)"
      by (auto simp: dd Let_def)
    have "fillable raw_map target_color v0 q \<longrightarrow> q \<in> set pixels"
    proof
      assume f: "fillable raw_map target_color v0 q"
      then have "cell visited (cy + dy) (cx + dx)"
        using False by (simp add: fillable_def q_def)
      with vis f show "q \<in> set pixels"
        by (auto simp: fillable_def q_def)
    qed
    then have "\<forall>e \<in> insert d ds. fillable raw_map target_color v0 (cx + fst e, cy + snd e) \<longrightarrow>
                 (cx + fst e, cy + snd e) \<in> set pixels"
      using dirs_done by (simp add: dd q_def)
    then show ?thesis
      using fi cin by (simp add: scan_inv_def nb st)
  qed
qed

lemma fold_neighbour_scan_inv:
  assumes "scan_inv raw_map target_color v0 seed (cx, cy) ds st"
    and "set es \<subseteq> set directions"
  shows "scan_inv raw_map target_color v0 seed (cx, cy) (ds \<union> set es)
           (fold (neighbour raw_map target_color cx cy) es st)"
  using assms
proof (induction es arbitrary: ds st)
  case Nil
  then show ?case by simp
next
  case (Cons e es)
  from Cons.prems have "scan_inv raw_map target_color v0 seed (cx, cy) (insert e ds)
      (neighbour raw_map target_color cx cy e st)"
    by (intro neighbour_scan_inv) simp_all
  from Cons.IH [OF this] Cons.prems(2) show ?case
    by simp
qed

lemma scan_inv_start:
  assumes "fill_inv raw_map target_color v0 seed {} (visited, (cx, cy) # queue, pixels)"
  shows "scan_inv raw_map target_color v0 seed (cx, cy) {} (visited, queue, pixels)"
proof -
  have eq: "set pixels - set ((cx, cy) # queue) - {} = set pixels - set queue - {(cx, cy)}"
    by auto
  have "fill_inv raw_map target_color v0 seed {(cx, cy)} (visited, queue, pixels)"
    using assms unfolding fill_inv_def prod.case eq by simp
  moreover have "(cx, cy) \<in> set pixels"
    using assms unfolding fill_inv_def prod.case by simp
  ultimately show ?thesis
    by (simp add: scan_inv_def)
qed

lemma scan_inv_finish:
  assumes "scan_inv raw_map target_color v0 seed c (set directions) st"
  shows "fill_inv raw_map target_color v0 seed {} st"
proof -
  obtain visited queue pixels where st: "st = (visited, queue, pixels)" by (cases st)
  from assms have fi: "fill_inv raw_map target_color v0 seed {c} (visited, queue, pixels)"
    and dirs: "\<forall>d \<in> set directions.
                 fillable raw_map target_color v0 (fst c + fst d, snd c + snd d) \<longrightarrow>
                 (fst c + fst d, snd c + snd d) \<in> set pixels"
    by (simp_all add: scan_inv_def st)
  have at_c: "q \<in> set pixels" if "adjacent c q" "fillable raw_map target_color v0 q" for q
  proof -
    from that(1) obtain d where "d \<in> set directions" "q = (fst c + fst d, snd c + snd d)"
      unfolding adjacent_directions by blast
    with dirs that(2) show ?thesis by blast
  qed
  from fi have others: "\<forall>p \<in> set pixels - set queue - {c}. \<forall>q.
            adjacent p q \<and> fillable raw_map target_color v0 q \<longrightarrow> q \<in> set pixels"
    unfolding fill_inv_def prod.case by blast
  have "\<forall>p \<in> set pixels - set queue - {}. \<forall>q.
            adjacent p q \<and> fillable raw_map target_color v0 q \<longrightarrow> q \<in> set pixels"
  proof (intro ballI allI impI)
    fix p q
    assume p: "p \<in> set pixels - set queue - {}"
      and q: "adjacent p q \<and> fillable raw_map target_color v0 q"
    show "q \<in> set pixels"
    proof (cases "p = c")
      case True
      with q at_c show ?thesis by blast
    next
      case False
      with p have "p \<in> set pixels - set queue - {c}" by blast
      with others q show ?thesis by blast
    qed
  qed
  with fi show ?thesis
    unfolding fill_inv_def prod.case st by blast
qed

lemma flood_loop_inv:
  assumes "fill_inv raw_map target_color v0 seed {} st"
  shows "fill_inv raw_map target_color v0 seed {} (flood_loop raw_map target_color st) \<and>
         fst (snd (flood_loop raw_map target_color st)) = []"
  using assms
proof (induction raw_map target_color st rule: flood_loop.induct)
  case (1 raw_map target_color visited pixels)
  then show ?case by simp
next
  case (2 raw_map target_color visited cx cy queue pixels)
  have "scan_inv raw_map target_color v0 seed (cx, cy) ({} \<union> set directions)
          (fold (neighbour raw_map target_color cx cy) directions (visited, queue, pixels))"
    using scan_inv_start [OF "2.prems"] by (rule fold_neighbour_scan_inv) simp
  then have "fill_inv raw_map target_color v0 seed {}
          (fold (neighbour raw_map target_color cx cy) directions (visited, queue, pixels))"
    by (intro scan_inv_finish [of _ _ _ _ "(cx, cy)"]) simp
  from "2.IH" [OF this] show ?case by simp
qed

lemma closed_contains_reachable:
  assumes "reachable raw_map target_color v0 seed p"
    and "seed \<in> S"
    and "\<And>p q. p \<in> S \<Longrightarrow> adjacent p q \<Longrightarrow> fillable raw_map target_color v0 q \<Longrightarrow> q \<in> S"
  shows "p \<in> S"
  using assms by (induction rule: reachable.induct) auto

lemma flood_fill_correct:
  assumes "fillable raw_map target_color visited (x, y)"
  shows "\<exists>pixels visited'.
           flood_fill raw_map x y target_color replacement_color visited = (pixels, visited') \<and>
           set pixels = {p. reachable raw_map target_color visited (x, y) p} \<and>
           distinct pixels \<and> pixels \<noteq> [] \<and> hd pixels = (x, y) \<and>
           nrows visited' = nrows visited \<and> ncols visited' = ncols visited \<and>
           (\<forall>x' y'. cell visited' y' x' = (cell visited y' x' \<or> (x', y') \<in> set pixels))"
proof -
  let ?st0 = "(np_set visited y x True, [(x, y)], [(x, y)])"
  have "fill_inv raw_map target_color visited (x, y) {} ?st0"
    using assms reach_seed [OF assms] unfolding fill_inv_def prod.case
    by (simp add: cell_np_set shape_np_set fillable_def) blast
  from flood_loop_inv [OF this]
  obtain visited' pixels where res: "flood_loop raw_map target_color ?st0 = (visited', [], pixels)"
    and inv: "fill_inv raw_map target_color visited (x, y) {} (visited', [], pixels)"
    by (cases "flood_loop raw_map target_color ?st0") auto
  have ff: "flood_fill raw_map x y target_color replacement_color visited = (pixels, visited')"
    using assms by (simp add: flood_fill_def fillable_def res Let_def del: flood_loop.simps)
  from inv have shape: "nrows visited' = nrows visited" "ncols visited' = ncols visited"
    and vis: "\<forall>x' y'. cell visited' y' x' = (cell visited y' x' \<or> (x', y') \<in> set pixels)"
    and dist: "distinct pixels" and ne: "pixels \<noteq> []" and hd: "hd pixels = (x, y)"
    and sub: "\<forall>p \<in> set pixels. reachable raw_map target_color visited (x, y) p"
    and closed: "\<forall>p \<in> set pixels - set [] - {}. \<forall>q.
                   adjacent p q \<and> fillable raw_map target_color visited q \<longrightarrow> q \<in> set pixels"
    unfolding fill_inv_def prod.case by blast+
  have seed: "(x, y) \<in> set pixels"
    using hd_in_set [OF ne] hd by simp
  have cl: "q \<in> set pixels"
    if "p \<in> set pixels" "adjacent p q" "fillable raw_map target_color visited q" for p q
  proof -
    from that(1) have "p \<in> set pixels - set [] - {}" by simp
    with closed that(2,3) show ?thesis by blast
  qed
  have "p \<in> set pixels" if "reachable raw_map target_color visited (x, y) p" for p
    using that seed cl by (rule closed_contains_reachable)
  with sub have "set pixels = {p. reachable raw_map target_color visited (x, y) p}"
    by blast
  with ff shape vis dist ne hd show ?thesis
    by blast
qed

text \<open>
  Claim C10. A seed outside the grid, already visited, or of another value than the
  target makes \<open>flood_fill\<close> return the empty list and the matrix \<open>visited\<close> as it
  was.
\<close>

theorem flood_fill_early_exit:
  assumes "x < 0 \<or> y < 0 \<or> ncols raw_map \<le> x \<or> nrows raw_map \<le> y \<or>
           cell visited y x \<or> cell raw_map y x \<noteq> target_color"
  shows "flood_fill raw_map x y target_color replacement_color visited = ([], visited)"
  using assms by (auto simp: flood_fill_def Let_def)

theorem flood_fill_early_exit_witness:
  "flood_fill example_map 3 0 0 1 (np_zeros_bool 2 3) = ([], np_zeros_bool 2 3) \<and>
   flood_fill example_map 1 1 0 1 (np_zeros_bool 2 3) = ([], np_zeros_bool 2 3) \<and>
   flood_fill example_map 0 0 0 1 (np_set (np_zeros_bool 2 3) 0 0 True) =
     ([], np_set (np_zeros_bool 2 3) 0 0 True)"
proof -
  have a: "(3::int) < 0 \<or> (0::int) < 0 \<or> ncols example_map \<le> 3 \<or> nrows example_map \<le> 0 \<or>
           cell (np_zeros_bool 2 3) 0 3 \<or> cell example_map 0 3 \<noteq> 0"
    by (simp add: example_map_def)
  have b: "(1::int) < 0 \<or> (1::int) < 0 \<or> ncols example_map \<le> 1 \<or> nrows example_map \<le> 1 \<or>
           cell (np_zeros_bool 2 3) 1 1 \<or> cell example_map 1 1 \<noteq> 0"
    by (simp add: example_map_def)
  have c: "(0::int) < 0 \<or> (0::int) < 0 \<or> ncols example_map \<le> 0 \<or> nrows example_map \<le> 0 \<or>
           cell (np_set (np_zeros_bool 2 3) 0 0 True) 0 0 \<or> cell example_map 0 0 \<noteq> 0"
    by (simp add: cell_np_set)
  show ?thesis
    using flood_fill_early_exit [OF a, of 1] flood_fill_early_exit [OF b, of 1]
      flood_fill_early_exit [OF c, of 1] by simp
qed

lemma flood_fill_example:
  "fst (flood_fill example_map 0 0 0 1 (np_zeros_bool 2 3)) = [(0, 0), (0, 1), (1, 0)]"
  by (simp add: flood_fill_def example_map_def np_zeros_bool_def directions_def
      cell_np_set shape_np_set Let_def)

section \<open>Properties of the room segmentation\<close>

lemma adjacent_sym: "adjacent p q = adjacent q p"
  by (simp add: adjacent_def abs_minus_commute)

lemma fillable_free:
  "fillable raw_map 0 visited p = (free_cell raw_map p \<and> \<not> marked visited p)"
  by (cases p) (auto simp: fillable_def free_cell_def marked_def no_marks_def np_zeros_bool_def)

lemma not_marked_no_marks: "\<not> marked (no_marks raw_map) p"
  by (simp add: marked_def no_marks_def np_zeros_bool_def)

lemma closed_no_marks: "closed_marks raw_map (no_marks raw_map)"
  by (simp add: closed_marks_def not_marked_no_marks)

lemma reachable_fillable:
  "reachable raw_map t v s p \<Longrightarrow> fillable raw_map t v p"
  by (induction rule: reachable.induct) simp_all

lemma reachable_trans:
  "reachable raw_map t v p q \<Longrightarrow> reachable raw_map t v s p \<Longrightarrow> reachable raw_map t v s q"
proof (induction rule: reachable.induct)
  case reach_seed
  then show ?case by simp
next
  case (reach_step p' q')
  then show ?case by (blast intro: reachable.reach_step)
qed

lemma reachable_sym:
  "reachable raw_map t v s p \<Longrightarrow> reachable raw_map t v p s"
proof (induction rule: reachable.induct)
  case reach_seed
  then show ?case by (rule reachable.reach_seed)
next
  case (reach_step p q)
  have fp: "fillable raw_map t v p"
    using reach_step.hyps(1) by (rule reachable_fillable)
  have "reachable raw_map t v q q"
    using reach_step.hyps(3) by (rule reachable.reach_seed)
  then have "reachable raw_map t v q p"
    using reach_step.hyps(2) fp adjacent_sym [of p q] by (blast intro: reachable.reach_step)
  with reach_step.IH show ?case
    by (rule reachable_trans)
qed

lemma component_eq:
  assumes "p \<in> component raw_map s"
  shows "component raw_map p = component raw_map s"
proof -
  from assms have sp: "reachable raw_map 0 (no_marks raw_map) s p"
    by (simp add: component_def)
  then have ps: "reachable raw_map 0 (no_marks raw_map) p s"
    by (rule reachable_sym)
  show ?thesis
    unfolding component_def using sp ps by (blast intro: reachable_trans)
qed

lemma component_self: "free_cell raw_map p \<Longrightarrow> p \<in> component raw_map p"
  by (simp add: component_def free_cell_def reach_seed)

lemma reachable_closed_marks:
  assumes cl: "closed_marks raw_map visited" and s: "\<not> marked visited s"
  shows "reachable raw_map 0 visited s p = reachable raw_map 0 (no_marks raw_map) s p"
proof
  assume "reachable raw_map 0 visited s p"
  then show "reachable raw_map 0 (no_marks raw_map) s p"
  proof (induction rule: reachable.induct)
    case reach_seed
    then show ?case
      by (simp add: fillable_free not_marked_no_marks reachable.reach_seed)
  next
    case (reach_step p q)
    then show ?case
      by (auto simp: fillable_free not_marked_no_marks intro: reachable.reach_step)
  qed
next
  assume "reachable raw_map 0 (no_marks raw_map) s p"
  then show "reachable raw_map 0 visited s p"
  proof (induction rule: reachable.induct)
    case reach_seed
    then show ?case
      using s by (simp add: fillable_free reachable.reach_seed)
  next
    case (reach_step p q)
    have fp: "free_cell raw_map p" and np: "\<not> marked visited p"
      using reachable_fillable [OF reach_step.IH] by (simp_all add: fillable_free)
    have fq: "free_cell raw_map q"
      using reach_step.hyps(3) by (simp add: fillable_free)
    have "\<not> marked visited q"
    proof
      assume "marked visited q"
      with cl fq fp reach_step.hyps(2) have "marked visited p"
        unfolding closed_marks_def by (blast dest: adjacent_sym [THEN iffD1])
      with np show False by simp
    qed
    with fq have "fillable raw_map 0 visited q"
      by (simp add: fillable_free)
    with reach_step.IH reach_step.hyps(2) show ?case
      by (rule reachable.reach_step)
  qed
qed

lemma flood_fill_component:
  assumes cl: "closed_marks raw_map visited"
    and seed: "fillable raw_map 0 visited (x, y)"
  shows "\<exists>area visited'.
           flood_fill raw_map x y 0 1 visited = (area, visited') \<and>
           set area = component raw_map (x, y) \<and> distinct area \<and>
           area \<noteq> [] \<and> hd area = (x, y) \<and>
           (\<forall>p. marked visited' p = (marked visited p \<or> p \<in> set area)) \<and>
           (\<forall>p \<in> set area. \<not> marked visited p) \<and>
           closed_marks raw_map visited'"
proof -
  from flood_fill_correct [OF seed, of 1]
  obtain area visited' where ff: "flood_fill raw_map x y 0 1 visited = (area, visited')"
    and set_area: "set area = {p. reachable raw_map 0 visited (x, y) p}"
    and dist: "distinct area" and ne: "area \<noteq> []" and hd: "hd area = (x, y)"
    and vis: "\<forall>x' y'. cell visited' y' x' = (cell visited y' x' \<or> (x', y') \<in> set area)"
    by blast
  have nm: "\<not> marked visited (x, y)"
    using seed by (simp add: fillable_free)
  have "reachable raw_map 0 visited (x, y) = reachable raw_map 0 (no_marks raw_map) (x, y)"
    by (rule ext) (rule reachable_closed_marks [OF cl nm])
  then have comp: "set area = component raw_map (x, y)"
    by (simp add: set_area component_def)
  have mk: "marked visited' p = (marked visited p \<or> p \<in> set area)" for p
    using vis by (cases p) (simp add: marked_def)
  have fresh: "\<forall>p \<in> set area. \<not> marked visited p"
  proof
    fix p assume "p \<in> set area"
    then have "reachable raw_map 0 visited (x, y) p"
      by (simp add: set_area)
    then have "fillable raw_map 0 visited p"
      by (rule reachable_fillable)
    then show "\<not> marked visited p"
      by (simp add: fillable_free)
  qed
  have "closed_marks raw_map visited'"
    unfolding closed_marks_def
  proof (intro allI impI)
    fix p q
    assume a: "marked visited' p \<and> free_cell raw_map p \<and> adjacent p q \<and> free_cell raw_map q"
    show "marked visited' q"
    proof (cases "marked visited q")
      case True
      then show ?thesis by (simp add: mk)
    next
      case nq: False
      have "\<not> marked visited p"
      proof
        assume "marked visited p"
        with cl a have "marked visited q"
          unfolding closed_marks_def by blast
        with nq show False by simp
      qed
      with a have "p \<in> set area" by (simp add: mk)
      then have rp: "reachable raw_map 0 visited (x, y) p"
        by (simp add: set_area)
      have "fillable raw_map 0 visited q"
        using a nq by (simp add: fillable_free)
      with rp a have "reachable raw_map 0 visited (x, y) q"
        by (blast intro: reachable.reach_step)
      then show ?thesis
        by (simp add: mk set_area)
    qed
  qed
  with ff comp dist ne hd mk fresh show ?thesis
    by blast
qed


lemma seed_fillable:
  assumes "in_grid raw_map (x, y)" and "\<not> cell visited y x \<and> cell raw_map y x = 0"
  shows "fillable raw_map 0 visited (x, y)"
  using assms by (simp add: fillable_def in_grid_def)

lemma fills_props:
  assumes "closed_marks raw_map visited" and "\<forall>p \<in> set seeds. in_grid raw_map p"
  shows "distinct (concat (fills raw_map seeds visited)) \<and>
         (\<forall>a \<in> set (fills raw_map seeds visited).
            a \<noteq> [] \<and> hd a \<in> set seeds \<and> set a = component raw_map (hd a) \<and> distinct a \<and>
            (\<forall>p \<in> set a. \<not> marked visited p))"
  using assms
proof (induction seeds arbitrary: visited)
  case Nil
  then show ?case by simp
next
  case (Cons s seeds)
  obtain x y where s: "s = (x, y)" by (cases s)
  from Cons.prems(2) have grid: "in_grid raw_map (x, y)"
    and rest: "\<forall>p \<in> set seeds. in_grid raw_map p"
    by (simp_all add: s)
  show ?case
  proof (cases "\<not> cell visited y x \<and> cell raw_map y x = 0")
    case True
    from flood_fill_component [OF Cons.prems(1) seed_fillable [OF grid True]]
    obtain area visited' where ff: "flood_fill raw_map x y 0 1 visited = (area, visited')"
      and comp: "set area = component raw_map (x, y)" and dist: "distinct area"
      and ne: "area \<noteq> []" and hd: "hd area = (x, y)"
      and mk: "\<forall>p. marked visited' p = (marked visited p \<or> p \<in> set area)"
      and fresh: "\<forall>p \<in> set area. \<not> marked visited p"
      and cl: "closed_marks raw_map visited'"
      by blast
    have eq: "fills raw_map (s # seeds) visited = area # fills raw_map seeds visited'"
      using True by (simp add: s ff)
    from Cons.IH [OF cl rest]
    have d: "distinct (concat (fills raw_map seeds visited'))"
      and each: "\<forall>a \<in> set (fills raw_map seeds visited').
            a \<noteq> [] \<and> hd a \<in> set seeds \<and> set a = component raw_map (hd a) \<and> distinct a \<and>
            (\<forall>p \<in> set a. \<not> marked visited' p)"
      by blast+
    have disj: "set area \<inter> set (concat (fills raw_map seeds visited')) = {}"
    proof (rule ccontr)
      assume "set area \<inter> set (concat (fills raw_map seeds visited')) \<noteq> {}"
      then obtain p a where "p \<in> set area" "a \<in> set (fills raw_map seeds visited')" "p \<in> set a"
        by auto
      with each mk show False by blast
    qed
    have "distinct (concat (fills raw_map (s # seeds) visited))"
      using dist d disj by (simp add: eq)
    moreover have "\<forall>a \<in> set (fills raw_map (s # seeds) visited).
            a \<noteq> [] \<and> hd a \<in> set (s # seeds) \<and> set a = component raw_map (hd a) \<and> distinct a \<and>
            (\<forall>p \<in> set a. \<not> marked visited p)"
    proof
      fix a assume "a \<in> set (fills raw_map (s # seeds) visited)"
      then consider "a = area" | "a \<in> set (fills raw_map seeds visited')"
        by (auto simp: eq)
      then show "a \<noteq> [] \<and> hd a \<in> set (s # seeds) \<and> set a = component raw_map (hd a) \<and>
                 distinct a \<and> (\<forall>p \<in> set a. \<not> marked visited p)"
      proof cases
        case 1
        then show ?thesis
          using ne hd comp dist fresh by (simp add: s)
      next
        case 2
        with each have "a \<noteq> [] \<and> hd a \<in> set seeds \<and> set a = component raw_map (hd a) \<and>
            distinct a \<and> (\<forall>p \<in> set a. \<not> marked visited' p)"
          by blast
        then show ?thesis
          using mk by auto
      qed
    qed
    ultimately show ?thesis by blast
  next
    case False
    then have eq: "fills raw_map (s # seeds) visited = fills raw_map seeds visited"
      by (auto simp: s)
    from Cons.IH [OF Cons.prems(1) rest] show ?thesis
      unfolding eq by auto
  qed
qed

lemma fills_cover:
  assumes "closed_marks raw_map visited" and "\<forall>p \<in> set seeds. in_grid raw_map p"
  shows "\<forall>p \<in> set seeds. free_cell raw_map p \<longrightarrow>
           marked visited p \<or> (\<exists>a \<in> set (fills raw_map seeds visited). p \<in> set a)"
  using assms
proof (induction seeds arbitrary: visited)
  case Nil
  then show ?case by simp
next
  case (Cons s seeds)
  obtain x y where s: "s = (x, y)" by (cases s)
  from Cons.prems(2) have grid: "in_grid raw_map (x, y)"
    and rest: "\<forall>p \<in> set seeds. in_grid raw_map p"
    by (simp_all add: s)
  show ?case
  proof (cases "\<not> cell visited y x \<and> cell raw_map y x = 0")
    case True
    from flood_fill_component [OF Cons.prems(1) seed_fillable [OF grid True]]
    obtain area visited' where ff: "flood_fill raw_map x y 0 1 visited = (area, visited')"
      and ne: "area \<noteq> []" and hd: "hd area = (x, y)"
      and mk: "\<forall>p. marked visited' p = (marked visited p \<or> p \<in> set area)"
      and cl: "closed_marks raw_map visited'"
      by blast
    have eq: "fills raw_map (s # seeds) visited = area # fills raw_map seeds visited'"
      using True by (simp add: s ff)
    have s_in: "s \<in> set area"
      using hd_in_set [OF ne] hd by (simp add: s)
    from Cons.IH [OF cl rest]
    have ih: "\<forall>p \<in> set seeds. free_cell raw_map p \<longrightarrow>
           marked visited' p \<or> (\<exists>a \<in> set (fills raw_map seeds visited'). p \<in> set a)" .
    show ?thesis
    proof (intro ballI impI)
      fix p assume p: "p \<in> set (s # seeds)" and f: "free_cell raw_map p"
      show "marked visited p \<or> (\<exists>a \<in> set (fills raw_map (s # seeds) visited). p \<in> set a)"
      proof (cases "p = s")
        case True
        then show ?thesis using s_in by (simp add: eq)
      next
        case False
        with p have "p \<in> set seeds" by simp
        with ih f have "marked visited' p \<or> (\<exists>a \<in> set (fills raw_map seeds visited'). p \<in> set a)"
          by blast
        then show ?thesis
          using mk by (auto simp: eq)
      qed
    qed
  next
    case False
    then have eq: "fills raw_map (s # seeds) visited = fills raw_map seeds visited"
      by (auto simp: s)
    from Cons.IH [OF Cons.prems(1) rest]
    have ih: "\<forall>p \<in> set seeds. free_cell raw_map p \<longrightarrow>
           marked visited p \<or> (\<exists>a \<in> set (fills raw_map seeds visited). p \<in> set a)" .
    show ?thesis
    proof (intro ballI impI)
      fix p assume p: "p \<in> set (s # seeds)" and f: "free_cell raw_map p"
      show "marked visited p \<or> (\<exists>a \<in> set (fills raw_map (s # seeds) visited). p \<in> set a)"
      proof (cases "p = s")
        case True
        with f have "cell raw_map y x = 0"
          by (simp add: s free_cell_def fillable_def)
        with False have "cell visited y x" by simp
        then show ?thesis using True by (simp add: marked_def s)
      next
        case False
        with p have "p \<in> set seeds" by simp
        with ih f show ?thesis by (simp add: eq)
      qed
    qed
  qed
qed

lemma fold_scan_cell:
  "snd (fold (scan_cell raw_map m) seeds (visited, rooms)) =
     rooms @ filter (\<lambda>a. m < int (length a)) (fills raw_map seeds visited)"
proof (induction seeds arbitrary: visited rooms)
  case Nil
  then show ?case by simp
next
  case (Cons s seeds)
  obtain x y where s: "s = (x, y)" by (cases s)
  show ?case
  proof (cases "\<not> cell visited y x \<and> cell raw_map y x = 0")
    case True
    obtain area visited' where ff: "flood_fill raw_map x y 0 1 visited = (area, visited')"
      by (cases "flood_fill raw_map x y 0 1 visited")
    show ?thesis
      using True by (simp add: s ff Cons.IH)
  next
    case False
    then have "scan_cell raw_map m s (visited, rooms) = (visited, rooms)"
      and "fills raw_map (s # seeds) visited = fills raw_map seeds visited"
      by (auto simp: s)
    then show ?thesis
      by (simp add: Cons.IH)
  qed
qed

lemma set_scan_order: "set (scan_order raw_map) = {p. in_grid raw_map p}"
  by (auto simp: scan_order_def in_grid_def)

lemma set_sort_largest_first: "set (sort_largest_first xs) = set xs"
  by (simp add: sort_largest_first_def)

lemma set_detect_rooms:
  "set (detect_rooms raw_map m) =
     {a \<in> set (fills raw_map (scan_order raw_map) (no_marks raw_map)). m < int (length a)}"
  by (simp add: detect_rooms_def set_sort_largest_first fold_scan_cell no_marks_def Let_def)

lemma sorted_detect_rooms:
  "sorted_wrt (\<lambda>a b. length b \<le> length a) (detect_rooms raw_map m)"
proof -
  have "sorted_wrt (\<lambda>a b. length b \<le> length a) (sort_largest_first xs)" for xs :: "coord list list"
  proof -
    have "sorted (map length (sort_key length (rev xs)))"
      by (rule sorted_sort_key)
    then have "sorted_wrt (\<lambda>a b. length a \<le> length b) (sort_key length (rev xs))"
      by (simp add: sorted_map)
    then show ?thesis
      by (simp add: sort_largest_first_def sorted_wrt_rev)
  qed
  then show ?thesis
    by (simp add: detect_rooms_def Let_def)
qed


lemma detect_rooms_example: "detect_rooms example_map 2 = [[(0, 0), (0, 1), (1, 0)]]"
  by (simp add: detect_rooms_def scan_order_def example_map_def np_zeros_bool_def flood_fill_def
      directions_def cell_np_set shape_np_set sort_largest_first_def Let_def upto.simps)

lemma fills_example:
  "fills example_map [(2, 1), (1, 0), (0, 0)] (no_marks example_map) =
     [[(2, 1)], [(1, 0), (0, 0), (0, 1)]]"
  by (simp add: example_map_def no_marks_def np_zeros_bool_def flood_fill_def
      directions_def cell_np_set shape_np_set Let_def)

text \<open>
  Claim C5. Take the seeds of a pass in any order, each of them a cell of the grid, and
  start from a matrix with no mark. The lists returned by the successive calls of
  \<open>flood_fill\<close> hold every marked cell once: no cell is marked twice, within a call or
  across calls. Each list starts with its seed and is, as a set, the connected
  component of free cells of that seed, so its length is the number of those cells.
  The rooms the loop of \<open>detect_rooms\<close> keeps are these lists, filtered by size. A single
  call from a seed that can be filled returns, without repetition, exactly the cells
  reachable from the seed through 4-neighbours that can be filled.
\<close>

theorem flood_fill_pass_visits_once:
  assumes "\<forall>p \<in> set seeds. in_grid raw_map p"
  shows "distinct (concat (fills raw_map seeds (no_marks raw_map))) \<and>
         (\<forall>a \<in> set (fills raw_map seeds (no_marks raw_map)).
            a \<noteq> [] \<and> hd a \<in> set seeds \<and> set a = component raw_map (hd a) \<and>
            length a = card (component raw_map (hd a))) \<and>
         snd (fold (scan_cell raw_map m) seeds (no_marks raw_map, [])) =
           filter (\<lambda>a. m < int (length a)) (fills raw_map seeds (no_marks raw_map)) \<and>
         (\<forall>x y visited. fillable raw_map 0 visited (x, y) \<longrightarrow>
            distinct (fst (flood_fill raw_map x y 0 1 visited)) \<and>
            set (fst (flood_fill raw_map x y 0 1 visited)) =
              {p. reachable raw_map 0 visited (x, y) p})"
proof -
  from fills_props [OF closed_no_marks assms]
  have d: "distinct (concat (fills raw_map seeds (no_marks raw_map)))"
    and each: "\<forall>a \<in> set (fills raw_map seeds (no_marks raw_map)).
            a \<noteq> [] \<and> hd a \<in> set seeds \<and> set a = component raw_map (hd a) \<and> distinct a \<and>
            (\<forall>p \<in> set a. \<not> marked (no_marks raw_map) p)"
    by blast+
  have sizes: "\<forall>a \<in> set (fills raw_map seeds (no_marks raw_map)).
            a \<noteq> [] \<and> hd a \<in> set seeds \<and> set a = component raw_map (hd a) \<and>
            length a = card (component raw_map (hd a))"
  proof
    fix a assume "a \<in> set (fills raw_map seeds (no_marks raw_map))"
    with each have a: "a \<noteq> []" "hd a \<in> set seeds" "set a = component raw_map (hd a)" "distinct a"
      by blast+
    from a(4) have "length a = card (set a)"
      by (simp add: distinct_card)
    with a show "a \<noteq> [] \<and> hd a \<in> set seeds \<and> set a = component raw_map (hd a) \<and>
            length a = card (component raw_map (hd a))"
      by simp
  qed
  have single: "\<forall>x y visited. fillable raw_map 0 visited (x, y) \<longrightarrow>
            distinct (fst (flood_fill raw_map x y 0 1 visited)) \<and>
            set (fst (flood_fill raw_map x y 0 1 visited)) =
              {p. reachable raw_map 0 visited (x, y) p}"
  proof (intro allI impI)
    fix x y visited
    assume "fillable raw_map 0 visited (x, y)"
    from flood_fill_correct [OF this, of 1]
    show "distinct (fst (flood_fill raw_map x y 0 1 visited)) \<and>
            set (fst (flood_fill raw_map x y 0 1 visited)) =
              {p. reachable raw_map 0 visited (x, y) p}"
      by auto
  qed
  from d sizes single show ?thesis
    using fold_scan_cell [of raw_map m seeds "no_marks raw_map" "[]"] by simp
qed

theorem flood_fill_pass_visits_once_witness:
  "fills example_map [(2, 1), (1, 0), (0, 0)] (no_marks example_map) =
     [[(2, 1)], [(1, 0), (0, 0), (0, 1)]] \<and>
   distinct (concat (fills example_map [(2, 1), (1, 0), (0, 0)] (no_marks example_map))) \<and>
   set [(1, 0), (0, 0), (0, 1)] = component example_map (1, 0) \<and>
   card (component example_map (1, 0)) = 3 \<and>
   set (fst (flood_fill example_map 2 1 0 1 (no_marks example_map))) =
     {p. reachable example_map 0 (no_marks example_map) (2, 1) p}"
proof -
  have g: "\<forall>p \<in> set [(2, 1), (1, 0), (0, 0)]. in_grid example_map p"
    by (simp add: in_grid_def example_map_def)
  have f: "fillable example_map 0 (no_marks example_map) (2, 1)"
    by (simp add: fillable_def example_map_def no_marks_def np_zeros_bool_def)
  note th = flood_fill_pass_visits_once [OF g, of 0]
  from th have d: "distinct (concat (fills example_map [(2, 1), (1, 0), (0, 0)]
                     (no_marks example_map)))"
    by blast
  from th have "\<forall>a \<in> set (fills example_map [(2, 1), (1, 0), (0, 0)] (no_marks example_map)).
            set a = component example_map (hd a) \<and> length a = card (component example_map (hd a))"
    by blast
  then have c: "set [(1, 0), (0, 0), (0, 1)] = component example_map (1, 0)"
    and n: "card (component example_map (1, 0)) = 3"
    unfolding fills_example by simp_all
  from th f have s: "set (fst (flood_fill example_map 2 1 0 1 (no_marks example_map))) =
     {p. reachable example_map 0 (no_marks example_map) (2, 1) p}"
    by blast
  from fills_example d c n s show ?thesis
    by blast
qed

text \<open>
  Claim C4, as stated, fails at the boundary: the code keeps an area only when
  \<open>len(area) > min_room_size\<close>. On a map of two free cells side by side and a minimum
  room size of 2, the flood fill finds the component of exactly 2 cells, and
  \<open>detect_rooms\<close> returns no room.
\<close>

theorem room_of_min_size_excluded:
  "fst (flood_fill two_free 0 0 0 1 (no_marks two_free)) = [(0, 0), (1, 0)] \<and>
   detect_rooms two_free 2 = []"
  by (simp add: detect_rooms_def scan_order_def two_free_def no_marks_def np_zeros_bool_def
      flood_fill_def directions_def cell_np_set shape_np_set sort_largest_first_def Let_def
      upto.simps)

text \<open>
  Claim C4, amended. Every room in the output of \<open>detect_rooms\<close> has an area strictly
  greater than \<open>min_room_size\<close> and is, without repetition, the whole connected
  component of free cells of its first cell; the rooms are ordered by decreasing area;
  and every connected component of free cells whose area is strictly greater than
  \<open>min_room_size\<close> is in the output.
\<close>

theorem rooms_exceed_min_size:
  "(\<forall>a \<in> set (detect_rooms raw_map min_room_size).
      min_room_size < int (length a) \<and> a \<noteq> [] \<and> distinct a \<and>
      set a = component raw_map (hd a)) \<and>
   sorted_wrt (\<lambda>a b. length b \<le> length a) (detect_rooms raw_map min_room_size) \<and>
   (\<forall>p. free_cell raw_map p \<and> min_room_size < int (card (component raw_map p)) \<longrightarrow>
      (\<exists>a \<in> set (detect_rooms raw_map min_room_size). set a = component raw_map p))"
proof -
  have grid: "\<forall>p \<in> set (scan_order raw_map). in_grid raw_map p"
    by (simp add: set_scan_order)
  from fills_props [OF closed_no_marks grid]
  have each: "\<forall>a \<in> set (fills raw_map (scan_order raw_map) (no_marks raw_map)).
            a \<noteq> [] \<and> set a = component raw_map (hd a) \<and> distinct a"
    by blast
  have out: "\<forall>a \<in> set (detect_rooms raw_map min_room_size).
      min_room_size < int (length a) \<and> a \<noteq> [] \<and> distinct a \<and>
      set a = component raw_map (hd a)"
    using each by (simp add: set_detect_rooms)
  have incl: "\<forall>p. free_cell raw_map p \<and> min_room_size < int (card (component raw_map p)) \<longrightarrow>
      (\<exists>a \<in> set (detect_rooms raw_map min_room_size). set a = component raw_map p)"
  proof (intro allI impI)
    fix p
    assume a: "free_cell raw_map p \<and> min_room_size < int (card (component raw_map p))"
    then have "in_grid raw_map p"
      by (cases p) (simp add: free_cell_def fillable_def in_grid_def)
    then have "p \<in> set (scan_order raw_map)"
      by (simp add: set_scan_order)
    with fills_cover [OF closed_no_marks grid] a
    obtain r where r: "r \<in> set (fills raw_map (scan_order raw_map) (no_marks raw_map))"
      and pr: "p \<in> set r"
      using not_marked_no_marks by blast
    from each r have rc: "set r = component raw_map (hd r)" and rd: "distinct r"
      by blast+
    from pr rc have "component raw_map p = component raw_map (hd r)"
      by (intro component_eq) simp
    with rc have eq: "set r = component raw_map p" by simp
    with rd have "length r = card (component raw_map p)"
      by (metis distinct_card)
    with a r have "r \<in> set (detect_rooms raw_map min_room_size)"
      by (simp add: set_detect_rooms)
    with eq show "\<exists>a \<in> set (detect_rooms raw_map min_room_size). set a = component raw_map p"
      by blast
  qed
  from out sorted_detect_rooms incl show ?thesis
    by blast
qed

theorem rooms_exceed_min_size_witness:
  "detect_rooms example_map 2 = [[(0, 0), (0, 1), (1, 0)]] \<and>
   (2::int) < int (length [(0, 0), (0, 1), (1, 0 :: int) :: coord]) \<and>
   set [(0, 0), (0, 1), (1, 0)] = component example_map (0, 0) \<and>
   free_cell example_map (1, 0) \<and>
   (2::int) < int (card (component example_map (1, 0))) \<and>
   (\<exists>a \<in> set (detect_rooms example_map 2). set a = component example_map (1, 0))"
proof -
  note th = rooms_exceed_min_size [of example_map 2]
  from th have "\<forall>a \<in> set (detect_rooms example_map 2).
      2 < int (length a) \<and> set a = component example_map (hd a)"
    by blast
  then have c: "set [(0, 0), (0, 1), (1, 0)] = component example_map (0, 0)"
    unfolding detect_rooms_example by simp
  have f: "free_cell example_map (1, 0)"
    by (simp add: free_cell_def fillable_def example_map_def no_marks_def np_zeros_bool_def)
  have "(1, 0) \<in> component example_map (0, 0)"
    using c by auto
  then have e: "component example_map (1, 0) = component example_map (0, 0)"
    by (rule component_eq)
  have "card (set [(0, 0), (0, 1), (1, 0 :: int) :: coord]) = 3"
    by simp
  then have n: "(2::int) < int (card (component example_map (1, 0)))"
    unfolding e c [symmetric] by simp
  from th f n have "\<exists>a \<in> set (detect_rooms example_map 2). set a = component example_map (1, 0)"
    by blast
  with detect_rooms_example c f n show ?thesis
    by simp
qed

section \<open>Properties of the overlay drawing\<close>

lemma set_rgb_idem: "set_rgb c (set_rgb c v) = set_rgb c v"
  by (cases c; cases v) simp

lemma paints_refl: "paints width height colour img img"
  by (simp add: paints_def)

lemma paints_trans:
  assumes "paints width height colour a b" and "paints width height colour b c"
  shows "paints width height colour a c"
  unfolding paints_def
proof (intro conjI allI)
  show "nrows c = nrows a" "ncols c = ncols a"
    using assms by (simp_all add: paints_def)
next
  fix y x
  from assms(1) have ab: "cell b y x = cell a y x \<or>
      (0 \<le> x \<and> x < width \<and> 0 \<le> y \<and> y < height \<and> cell b y x = set_rgb colour (cell a y x))"
    by (simp add: paints_def)
  from assms(2) have bc: "cell c y x = cell b y x \<or>
      (0 \<le> x \<and> x < width \<and> 0 \<le> y \<and> y < height \<and> cell c y x = set_rgb colour (cell b y x))"
    by (simp add: paints_def)
  from ab bc show "cell c y x = cell a y x \<or>
      (0 \<le> x \<and> x < width \<and> 0 \<le> y \<and> y < height \<and> cell c y x = set_rgb colour (cell a y x))"
    by (auto simp: set_rgb_idem)
qed

lemma paints_canvas: "paints width height colour img img' \<Longrightarrow> canvas w h img \<Longrightarrow> canvas w h img'"
  by (simp add: paints_def canvas_def)

lemma fold_err_paints:
  assumes step: "\<And>a img. canvas width height img \<Longrightarrow>
                   \<exists>img'. f a img = Inr img' \<and> paints width height colour img img'"
    and "canvas width height img"
  shows "\<exists>img'. fold_err f as img = Inr img' \<and> paints width height colour img img'"
  using assms(2)
proof (induction as arbitrary: img)
  case Nil
  then show ?case by (simp add: paints_refl)
next
  case (Cons a as)
  from step [OF Cons.prems] obtain img1 where a: "f a img = Inr img1"
    and p1: "paints width height colour img img1"
    by blast
  from paints_canvas [OF p1 Cons.prems] have "canvas width height img1" .
  from Cons.IH [OF this] obtain img2 where b: "fold_err f as img1 = Inr img2"
    and p2: "paints width height colour img1 img2"
    by blast
  from paints_trans [OF p1 p2] a b show ?case
    by simp
qed

lemma put_pixel_paints:
  assumes "canvas width height img"
  shows "\<exists>img'. put_pixel width height colour p img = Inr img' \<and>
           paints width height colour img img'"
proof -
  obtain x y where p: "p = (x, y)" by (cases p)
  show ?thesis
  proof (cases "0 \<le> x \<and> x < width \<and> 0 \<le> y \<and> y < height")
    case True
    then have "put_pixel width height colour p img =
        Inr (np_set img y x (set_rgb colour (cell img y x)))"
      using assms by (simp add: p np_setitem_rgb_def canvas_def)
    moreover have "paints width height colour img (np_set img y x (set_rgb colour (cell img y x)))"
      using True by (simp add: paints_def cell_np_set shape_np_set)
    ultimately show ?thesis by simp
  next
    case False
    then have "put_pixel width height colour p img = Inr img"
      by (auto simp: p)
    then show ?thesis by (simp add: paints_refl)
  qed
qed

lemma stamp_paints:
  assumes "canvas width height img"
  shows "\<exists>img'. stamp width height colour r c img = Inr img' \<and>
           paints width height colour img img'"
proof (cases "0 \<le> fst c \<and> fst c < width \<and> 0 \<le> snd c \<and> snd c < height")
  case True
  then have "stamp width height colour r c img =
      fold_err (put_pixel width height colour) (square c r) img"
    by (simp add: stamp_def)
  then show ?thesis
    using fold_err_paints [of width height "put_pixel width height colour" colour img "square c r",
        OF put_pixel_paints assms] by simp
next
  case False
  then have "stamp width height colour r c img = Inr img"
    by (auto simp: stamp_def)
  then show ?thesis by (simp add: paints_refl)
qed

lemma draw_edge_paints:
  assumes "canvas width height img"
  shows "\<exists>img'. draw_edge width height colour e img = Inr img' \<and>
           paints width height colour img img'"
  unfolding draw_edge_def
  using fold_err_paints [of width height "stamp width height colour 1" colour img,
      OF stamp_paints assms] by simp

lemma draw_polygon_paints:
  assumes "canvas width height img"
  shows "\<exists>img'. draw_polygon width height colour pixel_vertices img = Inr img' \<and>
           paints width height colour img img'"
proof (cases "3 \<le> length pixel_vertices")
  case True
  then show ?thesis
    unfolding draw_polygon_def
    using fold_err_paints [of width height "draw_edge width height colour" colour img,
        OF draw_edge_paints assms] by simp
next
  case False
  then show ?thesis
    by (simp add: draw_polygon_def paints_refl)
qed


lemma py_int_of_int: "py_int (of_int n) = n"
  by (simp add: py_int_def)

lemma py_int_mono:
  assumes "a \<le> b"
  shows "py_int a \<le> py_int b"
proof (cases "a < 0")
  case a: True
  show ?thesis
  proof (cases "b < 0")
    case True
    with a assms show ?thesis
      by (simp add: py_int_def ceiling_mono)
  next
    case False
    from a have "ceiling a \<le> 0"
      by (simp add: ceiling_le_zero)
    moreover from False have "0 \<le> floor b"
      by simp
    ultimately have "ceiling a \<le> floor b"
      by (rule order_trans)
    then show ?thesis
      by (simp add: py_int_def a False)
  qed
next
  case False
  with assms have "\<not> b < 0" by simp
  with False assms show ?thesis
    by (simp add: py_int_def floor_mono)
qed

lemma linspace_unit: "t \<in> set (linspace n) \<Longrightarrow> 0 \<le> t \<and> t \<le> 1"
  by (auto simp: linspace_def split: if_splits)

lemma interpolate_between:
  fixes a b t :: real
  assumes "0 \<le> t" and "t \<le> 1"
  shows "min a b \<le> a + t * (b - a) \<and> a + t * (b - a) \<le> max a b"
proof (cases "a \<le> b")
  case True
  then have "0 \<le> t * (b - a)" and "t * (b - a) \<le> b - a"
    using assms by (simp_all add: mult_left_le_one_le)
  with True show ?thesis by simp
next
  case False
  then have neg: "b - a \<le> 0" by simp
  define d where "d = t * (b - a)"
  have le0: "d \<le> 0"
    unfolding d_def using assms(1) neg by (rule mult_nonneg_nonpos)
  have "1 * (b - a) \<le> t * (b - a)"
    using assms(2) neg by (rule mult_right_mono_neg)
  then have ge: "b - a \<le> d"
    unfolding d_def mult_1 .
  from ge have lo: "b \<le> a + d"
    by linarith
  from le0 have hi: "a + d \<le> a"
    by linarith
  from False have "min a b = b" "max a b = a"
    by (simp_all add: min_def max_def)
  with lo hi show ?thesis
    unfolding d_def by presburger
qed

lemma py_int_interpolate:
  fixes x1 x2 :: int
  assumes "0 \<le> t" and "t \<le> 1"
  shows "min x1 x2 \<le> py_int (of_int x1 + t * of_int (x2 - x1)) \<and>
         py_int (of_int x1 + t * of_int (x2 - x1)) \<le> max x1 x2"
proof -
  let ?v = "of_int x1 + t * (of_int x2 - of_int x1) :: real"
  from interpolate_between [OF assms, of "of_int x1" "of_int x2"]
  have lo: "of_int (min x1 x2) \<le> ?v" and hi: "?v \<le> of_int (max x1 x2)"
    by (simp_all add: of_int_min of_int_max)
  from py_int_mono [OF lo] py_int_mono [OF hi] show ?thesis
    by (simp add: py_int_of_int)
qed

lemma edge_points_between:
  assumes "p \<in> set (edge_points (x1, y1) (x2, y2))"
  shows "min x1 x2 \<le> fst p \<and> fst p \<le> max x1 x2 \<and> min y1 y2 \<le> snd p \<and> snd p \<le> max y1 y2"
proof -
  from assms obtain t where t: "0 \<le> t" "t \<le> 1"
    and p: "p = (py_int (of_int x1 + t * of_int (x2 - x1)),
                 py_int (of_int y1 + t * of_int (y2 - y1)))"
    using linspace_unit by (auto simp: edge_points_def)
  from py_int_interpolate [OF t, of x1 x2] py_int_interpolate [OF t, of y1 y2]
  show ?thesis by (simp add: p)
qed

lemma fold_err_unchanged:
  "(\<And>a. a \<in> set as \<Longrightarrow> f a s = Inr s) \<Longrightarrow> fold_err f as s = Inr s"
  by (induction as) simp_all

lemma stamp_outside:
  "outside_canvas width height c \<Longrightarrow> stamp width height colour r c img = Inr img"
  by (auto simp: stamp_def outside_canvas_def)

lemma edges_members:
  assumes "e \<in> set (edges pixel_vertices)"
  shows "fst e \<in> set pixel_vertices \<and> snd e \<in> set pixel_vertices"
proof -
  from assms obtain i where i: "i < length pixel_vertices"
    and e: "e = (pixel_vertices ! i, pixel_vertices ! ((i + 1) mod length pixel_vertices))"
    by (auto simp: edges_def)
  from i have "0 < length pixel_vertices"
    by linarith
  then have "(i + 1) mod length pixel_vertices < length pixel_vertices"
    by (rule mod_less_divisor)
  with i show ?thesis
    by (simp add: e)
qed

lemma one_side_unchanged:
  assumes "(\<forall>p \<in> set pixel_vertices. fst p < 0) \<or> (\<forall>p \<in> set pixel_vertices. width \<le> fst p) \<or>
           (\<forall>p \<in> set pixel_vertices. snd p < 0) \<or> (\<forall>p \<in> set pixel_vertices. height \<le> snd p)"
  shows "draw_polygon width height colour pixel_vertices img = Inr img"
proof -
  have edge: "draw_edge width height colour e img = Inr img"
    if e: "e \<in> set (edges pixel_vertices)" for e
  proof -
    obtain x1 y1 x2 y2 where ee: "e = ((x1, y1), (x2, y2))"
      by (cases e) auto
    from edges_members [OF e] have m: "(x1, y1) \<in> set pixel_vertices" "(x2, y2) \<in> set pixel_vertices"
      by (simp_all add: ee)
    have "stamp width height colour 1 c img = Inr img"
      if c: "c \<in> set (edge_points (x1, y1) (x2, y2))" for c
    proof -
      note b = edge_points_between [OF c]
      from assms consider
          (left) "\<forall>p \<in> set pixel_vertices. fst p < 0"
        | (right) "\<forall>p \<in> set pixel_vertices. width \<le> fst p"
        | (above) "\<forall>p \<in> set pixel_vertices. snd p < 0"
        | (below) "\<forall>p \<in> set pixel_vertices. height \<le> snd p"
        by blast
      then have "outside_canvas width height c"
      proof cases
        case left
        with m have "x1 < 0" "x2 < 0" by force+
        with b have "fst c < 0" by arith
        then show ?thesis by (simp add: outside_canvas_def)
      next
        case right
        with m have "width \<le> x1" "width \<le> x2" by force+
        with b have "width \<le> fst c" by arith
        then show ?thesis by (simp add: outside_canvas_def)
      next
        case above
        with m have "y1 < 0" "y2 < 0" by force+
        with b have "snd c < 0" by arith
        then show ?thesis by (simp add: outside_canvas_def)
      next
        case below
        with m have "height \<le> y1" "height \<le> y2" by force+
        with b have "height \<le> snd c" by arith
        then show ?thesis by (simp add: outside_canvas_def)
      qed
      then show ?thesis by (rule stamp_outside)
    qed
    then show ?thesis
      unfolding draw_edge_def ee fst_conv snd_conv by (rule fold_err_unchanged)
  qed
  have "fold_err (draw_edge width height colour) (edges pixel_vertices) img = Inr img"
    by (rule fold_err_unchanged) (rule edge)
  then show ?thesis
    by (simp add: draw_polygon_def)
qed

lemma crossing_example:
  "pixel_after (draw_polygon 1 1 (255, 0, 0) [(-1, 0), (1, 0), (0, -2)] white_pixel) 0 0 =
     Some (255, 0, 0, 255)"
  by (simp add: pixel_after_def draw_polygon_def edges_def draw_edge_def edge_points_def
      linspace_def stamp_def square_def np_setitem_rgb_def white_pixel_def py_int_def
      cell_np_set shape_np_set upto.simps upt_rec ceiling_def)


text \<open>
  Claim C8, as stated, fails in its consequence: a polygon whose vertices all lie outside
  the canvas can still have an edge that crosses it, and the samples of that edge that
  fall inside are drawn. On a canvas of one white pixel, the triangle with the pixel
  vertices (-1,0), (1,0) and (0,-2) has no vertex on the canvas, and drawing its outline
  in red turns the pixel red.
\<close>

theorem polygon_outside_canvas_is_drawn:
  "outside_canvas 1 1 (-1, 0) \<and> outside_canvas 1 1 (1, 0) \<and> outside_canvas 1 1 (0, -2) \<and>
   pixel_after (Inr white_pixel) 0 0 = Some (255, 255, 255, 255) \<and>
   pixel_after (draw_polygon 1 1 (255, 0, 0) [(-1, 0), (1, 0), (0, -2)] white_pixel) 0 0 =
     Some (255, 0, 0, 255)"
  using crossing_example
  by (simp add: outside_canvas_def pixel_after_def white_pixel_def)

text \<open>
  Claim C8, amended. On a raster of the shape of the canvas, drawing a polygon outline
  or the charger marker never fails, keeps the shape, and changes a pixel only inside
  \<open>[0,width) x [0,height)\<close>, to the overlay colour with its alpha kept: every computed
  coordinate outside the canvas is dropped where it would be used. A polygon whose
  vertices all lie beyond one and the same side of the canvas (all left of it, all
  right of it, all above it or all below it) leaves every pixel as it was, and so does a
  charger whose pixel is outside the canvas.
\<close>

theorem overlay_out_of_canvas_discarded:
  assumes "canvas width height img"
  shows "(\<exists>img'. draw_polygon width height colour pixel_vertices img = Inr img' \<and>
            paints width height colour img img') \<and>
         (\<exists>img'. draw_charger width height cx cy img = Inr img' \<and>
            paints width height (255, 0, 0) img img') \<and>
         ((\<forall>p \<in> set pixel_vertices. fst p < 0) \<or> (\<forall>p \<in> set pixel_vertices. width \<le> fst p) \<or>
          (\<forall>p \<in> set pixel_vertices. snd p < 0) \<or> (\<forall>p \<in> set pixel_vertices. height \<le> snd p)
            \<longrightarrow> draw_polygon width height colour pixel_vertices img = Inr img) \<and>
         (outside_canvas width height (cx, cy) \<longrightarrow>
            draw_charger width height cx cy img = Inr img)"
proof -
  have a: "\<exists>img'. draw_polygon width height colour pixel_vertices img = Inr img' \<and>
            paints width height colour img img'"
    using assms by (rule draw_polygon_paints)
  have b: "\<exists>img'. draw_charger width height cx cy img = Inr img' \<and>
            paints width height (255, 0, 0) img img'"
    unfolding draw_charger_def using assms by (rule stamp_paints)
  have c: "(\<forall>p \<in> set pixel_vertices. fst p < 0) \<or> (\<forall>p \<in> set pixel_vertices. width \<le> fst p) \<or>
          (\<forall>p \<in> set pixel_vertices. snd p < 0) \<or> (\<forall>p \<in> set pixel_vertices. height \<le> snd p)
            \<longrightarrow> draw_polygon width height colour pixel_vertices img = Inr img"
    using one_side_unchanged [of pixel_vertices width height colour img] by blast
  have d: "outside_canvas width height (cx, cy) \<longrightarrow>
            draw_charger width height cx cy img = Inr img"
    by (simp add: draw_charger_def stamp_outside)
  from a b c d show ?thesis by blast
qed

theorem overlay_out_of_canvas_discarded_witness:
  "canvas 1 1 white_pixel \<and>
   draw_polygon 1 1 (255, 0, 0) [(-2, 0), (-1, 1), (-3, 0)] white_pixel = Inr white_pixel \<and>
   draw_charger 1 1 5 5 white_pixel = Inr white_pixel \<and>
   (\<exists>img'. draw_polygon 1 1 (255, 0, 0) [(-2, 0), (-1, 1), (-3, 0)] white_pixel = Inr img' \<and>
      paints 1 1 (255, 0, 0) white_pixel img')"
proof -
  have cv: "canvas 1 1 white_pixel"
    by (simp add: canvas_def white_pixel_def)
  have side: "(\<forall>p \<in> set [(-2, 0), (-1, 1), (-3, 0 :: int)]. fst p < (0::int)) \<or>
      (\<forall>p \<in> set [(-2, 0), (-1, 1), (-3, 0 :: int)]. 1 \<le> fst p) \<or>
      (\<forall>p \<in> set [(-2, 0), (-1, 1), (-3, 0 :: int)]. snd p < 0) \<or>
      (\<forall>p \<in> set [(-2, 0), (-1, 1), (-3, 0 :: int)]. 1 \<le> snd p)"
    by simp
  have out: "outside_canvas 1 1 (5, 5)"
    by (simp add: outside_canvas_def)
  note th = overlay_out_of_canvas_discarded [OF cv, of "(255, 0, 0)"
      "[(-2, 0), (-1, 1), (-3, 0)]" 5 5]
  from th side have p: "draw_polygon 1 1 (255, 0, 0) [(-2, 0), (-1, 1), (-3, 0)] white_pixel =
      Inr white_pixel"
    by blast
  from th out have c: "draw_charger 1 1 5 5 white_pixel = Inr white_pixel"
    by blast
  from th have e: "\<exists>img'. draw_polygon 1 1 (255, 0, 0) [(-2, 0), (-1, 1), (-3, 0)] white_pixel =
      Inr img' \<and> paints 1 1 (255, 0, 0) white_pixel img'"
    by blast
  from cv p c e show ?thesis by blast
qed

section \<open>Properties of the conversion call\<close>

lemma succeeds_simps:
  "succeeds (Inl e) = False" "succeeds (Inr a) = True"
  by (simp_all add: succeeds_def)

lemma succeeds_iff: "succeeds r \<longleftrightarrow> (\<exists>a. r = Inr a)"
  by (cases r) (simp_all add: succeeds_def)

lemma base_img_canvas:
  "canvas (int width) (int height) (base_img arr width height)"
  by (simp add: canvas_def base_img_def assign_where_def np_map_def np_zeros_def Let_def)





lemma base64_path_uppercase: "base64_path ''map.PNG'' = ''map.PNG''"
  by (simp add: base64_path_def)

lemma draw_area_cases:
  assumes "canvas (int (info_width mi)) (int (info_height mi)) img"
  shows "(succeeds (area_pixel_vertices ar (info_x_min mi) (info_y_min mi) (info_resolution mi)
                      vertices) \<longrightarrow>
            (\<exists>img'. draw_area ar mi colour vertices img = Inr img' \<and>
                    canvas (int (info_width mi)) (int (info_height mi)) img')) \<and>
         (\<not> succeeds (area_pixel_vertices ar (info_x_min mi) (info_y_min mi) (info_resolution mi)
                        vertices) \<longrightarrow>
            \<not> succeeds (draw_area ar mi colour vertices img))"
proof (cases "area_pixel_vertices ar (info_x_min mi) (info_y_min mi) (info_resolution mi) vertices")
  case (Inl e)
  then show ?thesis
    by (simp add: draw_area_def bind_err_def succeeds_simps)
next
  case (Inr pv)
  then have eq: "draw_area ar mi colour vertices img =
      draw_polygon (int (info_width mi)) (int (info_height mi)) colour pv img"
    by (simp add: draw_area_def bind_err_def)
  from draw_polygon_paints [OF assms] obtain img' where
    d: "draw_polygon (int (info_width mi)) (int (info_height mi)) colour pv img = Inr img'"
    and p: "paints (int (info_width mi)) (int (info_height mi)) colour img img'"
    by blast
  from paints_canvas [OF p assms] d show ?thesis
    by (simp add: eq Inr succeeds_simps)
qed

lemma fold_draw_area_cases:
  assumes "canvas (int (info_width mi)) (int (info_height mi)) img"
  shows "(list_all (\<lambda>vertices. succeeds (area_pixel_vertices ar (info_x_min mi) (info_y_min mi)
                                            (info_resolution mi) vertices)) as \<longrightarrow>
            (\<exists>img'. fold_err (draw_area ar mi colour) as img = Inr img' \<and>
                    canvas (int (info_width mi)) (int (info_height mi)) img')) \<and>
         (\<not> list_all (\<lambda>vertices. succeeds (area_pixel_vertices ar (info_x_min mi) (info_y_min mi)
                                              (info_resolution mi) vertices)) as \<longrightarrow>
            \<not> succeeds (fold_err (draw_area ar mi colour) as img))"
  using assms
proof (induction as arbitrary: img)
  case Nil
  then show ?case by simp
next
  case (Cons a as)
  note dc = draw_area_cases [OF Cons.prems, of ar a colour]
  show ?case
  proof (cases "succeeds (area_pixel_vertices ar (info_x_min mi) (info_y_min mi)
                            (info_resolution mi) a)")
    case True
    with dc obtain img1 where d: "draw_area ar mi colour a img = Inr img1"
      and c1: "canvas (int (info_width mi)) (int (info_height mi)) img1"
      by blast
    from Cons.IH [OF c1] show ?thesis
      by (simp add: d True)
  next
    case False
    with dc have "\<not> succeeds (draw_area ar mi colour a img)" by blast
    then obtain e where "draw_area ar mi colour a img = Inl e"
      by (cases "draw_area ar mi colour a img") (simp_all add: succeeds_simps)
    then show ?thesis
      by (simp add: False succeeds_simps)
  qed
qed

lemma draw_areas_cases:
  assumes "canvas (int (info_width mi)) (int (info_height mi)) img"
  shows "(list_all (\<lambda>vertices. succeeds (area_pixel_vertices ar (info_x_min mi) (info_y_min mi)
                                            (info_resolution mi) vertices))
            (case areas of None \<Rightarrow> [] | Some as \<Rightarrow> as) \<longrightarrow>
            (\<exists>img'. draw_areas ar mi colour areas img = Inr img' \<and>
                    canvas (int (info_width mi)) (int (info_height mi)) img')) \<and>
         (\<not> list_all (\<lambda>vertices. succeeds (area_pixel_vertices ar (info_x_min mi) (info_y_min mi)
                                              (info_resolution mi) vertices))
              (case areas of None \<Rightarrow> [] | Some as \<Rightarrow> as) \<longrightarrow>
            \<not> succeeds (draw_areas ar mi colour areas img))"
proof (cases areas)
  case None
  with assms show ?thesis by (simp add: draw_areas_def)
next
  case (Some as)
  with fold_draw_area_cases [OF assms, of ar as colour] show ?thesis
    by (simp add: draw_areas_def)
qed

lemma render_insufficient:
  "length map_data < info_width mi * info_height mi \<Longrightarrow>
   render ar mi ci ai map_data =
     Inl (InsufficientData (length map_data) (info_width mi) (info_height mi))"
  by (simp add: render_def bind_err_def map_array_def)

lemma render_succeeds_iff:
  "succeeds (render ar mi ci ai map_data) \<longleftrightarrow>
   info_width mi * info_height mi \<le> length map_data \<and> coordinates_convert ar mi ci ai"
proof (cases "info_width mi * info_height mi \<le> length map_data")
  case False
  then show ?thesis
    by (simp add: render_insufficient succeeds_simps)
next
  case len: True
  let ?w = "int (info_width mi)" and ?h = "int (info_height mi)"
  let ?P = "\<lambda>vertices. succeeds (area_pixel_vertices ar (info_x_min mi) (info_y_min mi)
                                   (info_resolution mi) vertices)"
  let ?F = "case forbidAreaValue ai of None \<Rightarrow> [] | Some as \<Rightarrow> as"
  let ?R = "case areaValue ai of None \<Rightarrow> [] | Some as \<Rightarrow> as"
  from map_array_ok [OF len] obtain arr where
    arr: "map_array map_data (info_width mi) (info_height mi) = Inr arr"
    by blast
  show ?thesis
  proof (cases "charger_pixel ar (fst (charger_pose ci)) (info_x_min mi) (info_resolution mi)")
    case (Inl e)
    then show ?thesis
      by (simp add: render_def bind_err_def arr coordinates_convert_def succeeds_simps)
  next
    case cpx: (Inr cpx)
    show ?thesis
    proof (cases "charger_pixel ar (snd (charger_pose ci)) (info_y_min mi) (info_resolution mi)")
      case (Inl e)
      then show ?thesis
        by (simp add: render_def bind_err_def arr cpx coordinates_convert_def succeeds_simps)
    next
      case cpy: (Inr cpy)
      have c0: "canvas ?w ?h (base_img arr (info_width mi) (info_height mi))"
        by (rule base_img_canvas)
      from stamp_paints [OF c0] obtain img1 where
        i1: "draw_charger ?w ?h cpx cpy (base_img arr (info_width mi) (info_height mi)) = Inr img1"
        and p1: "paints ?w ?h (255, 0, 0) (base_img arr (info_width mi) (info_height mi)) img1"
        unfolding draw_charger_def by blast
      from paints_canvas [OF p1 c0] have c1: "canvas ?w ?h img1" .
      have r1: "render ar mi ci ai map_data =
          bind_err (draw_areas ar mi (255, 0, 0) (forbidAreaValue ai) img1)
            (\<lambda>img2. draw_areas ar mi (0, 0, 255) (areaValue ai) img2)"
        by (simp add: render_def bind_err_def arr cpx cpy i1)
      have cc: "coordinates_convert ar mi ci ai \<longleftrightarrow> list_all ?P ?F \<and> list_all ?P ?R"
        by (simp add: coordinates_convert_def cpx cpy succeeds_simps areas_of_def)
      note f = draw_areas_cases [OF c1, of ar "forbidAreaValue ai" "(255, 0, 0)"]
      show ?thesis
      proof (cases "list_all ?P ?F")
        case False
        with f have "\<not> succeeds (draw_areas ar mi (255, 0, 0) (forbidAreaValue ai) img1)"
          by blast
        then obtain e where "draw_areas ar mi (255, 0, 0) (forbidAreaValue ai) img1 = Inl e"
          by (cases "draw_areas ar mi (255, 0, 0) (forbidAreaValue ai) img1")
             (simp_all add: succeeds_simps)
        then have "\<not> succeeds (render ar mi ci ai map_data)"
          by (simp add: r1 bind_err_def succeeds_simps)
        with False len cc show ?thesis by simp
      next
        case t1: True
        with f obtain img2 where
          i2: "draw_areas ar mi (255, 0, 0) (forbidAreaValue ai) img1 = Inr img2"
          and c2: "canvas ?w ?h img2"
          by blast
        have r2: "render ar mi ci ai map_data = draw_areas ar mi (0, 0, 255) (areaValue ai) img2"
          by (simp add: r1 i2 bind_err_def)
        note g = draw_areas_cases [OF c2, of ar "areaValue ai" "(0, 0, 255)"]
        show ?thesis
        proof (cases "list_all ?P ?R")
          case False
          with g have "\<not> succeeds (render ar mi ci ai map_data)"
            unfolding r2 by blast
          with False len cc show ?thesis by simp
        next
          case True
          with g obtain img3 where "draw_areas ar mi (0, 0, 255) (areaValue ai) img2 = Inr img3"
            by blast
          then have "succeeds (render ar mi ci ai map_data)"
            by (simp add: r2 succeeds_simps)
          with True t1 len cc show ?thesis by simp
        qed
      qed
    qed
  qed
qed

lemma rendered_succeeds_iff:
  "succeeds (rendered ar (Inr (mi, ci, ai, map_data))) \<longleftrightarrow>
   info_width mi * info_height mi \<le> length map_data \<and> coordinates_convert ar mi ci ai"
  by (simp add: rendered_def bind_err_def render_succeeds_iff)

lemma scenario_a_rendered: "\<exists>img. rendered exact_arith (Inr scenario_a_inputs) = Inr img"
proof -
  have "succeeds (rendered exact_arith (Inr scenario_a_inputs))"
    unfolding scenario_a_inputs_def rendered_succeeds_iff
    by (simp add: scenario_a_def coordinates_convert_def areas_of_def bind_err_def
          charger_pixel_def polygon_pixel_def py_truediv_def int_of_float_def exact_arith_def
          succeeds_simps)
  then show ?thesis
    by (simp add: succeeds_iff)
qed




lemma create_map_image_save_fails_midway:
  assumes "bind_err (rendered ar loaded) resize = Inr i"
    and "\<not> makedirs_raises e output_path"
    and "save_outcome e output_path = FailsMidway"
  shows "create_map_image ar e resize loaded output_path fs =
           (False, \<lparr>fs_dirs = fs_dirs fs \<union> makedirs_creates e output_path,
                    fs_files = (fs_files fs)(output_path \<mapsto> Truncated)\<rparr>)"
  using assms by (simp add: create_map_image_def Let_def write_to_def)



lemma create_map_image_completes:
  assumes "bind_err (rendered ar loaded) resize = Inr i"
    and "\<not> makedirs_raises e output_path"
    and "save_outcome e output_path = Completes"
    and "sidecar_outcome e (base64_path output_path) = Completes"
  shows "create_map_image ar e resize loaded output_path fs =
           (True, \<lparr>fs_dirs = fs_dirs fs \<union> makedirs_creates e output_path,
                   fs_files = (fs_files fs)(output_path \<mapsto> RasterFile i,
                                            base64_path output_path \<mapsto> Base64Text i)\<rparr>)"
  using assms by (simp add: create_map_image_def Let_def write_to_def)



text \<open>
  Two more ways in which a call ends between the two outcomes of the claim. When the
  raster write fails midway, the call reports failure and leaves the directory it created
  and a truncated file at the output path. When the output path does not contain
  \<open>.png\<close> (here \<open>map.PNG\<close>), the sidecar path is the output path itself: the call
  reports success, and the file holds the base64 text, the raster having been
  overwritten.
\<close>

lemma failed_raster_write_leaves_truncated_file:
  "create_map_image exact_arith disk_full Inr (Inr scenario_a_inputs) ''out/map.png'' empty_fs =
     (False, \<lparr>fs_dirs = {''out''}, fs_files = Map.empty(''out/map.png'' \<mapsto> Truncated)\<rparr>)"
proof -
  from scenario_a_rendered obtain img where "rendered exact_arith (Inr scenario_a_inputs) = Inr img"
    by blast
  then have "bind_err (rendered exact_arith (Inr scenario_a_inputs)) Inr = Inr img"
    by (simp add: bind_err_def)
  from create_map_image_save_fails_midway
         [OF this, where e = disk_full and output_path = "''out/map.png''"]
  show ?thesis
    by (simp add: disk_full_def empty_fs_def)
qed

lemma uppercase_extension_loses_raster:
  "\<exists>img. create_map_image exact_arith all_writable Inr (Inr scenario_a_inputs) ''map.PNG'' empty_fs =
           (True, \<lparr>fs_dirs = {}, fs_files = Map.empty(''map.PNG'' \<mapsto> Base64Text img)\<rparr>)"
proof -
  from scenario_a_rendered obtain img where "rendered exact_arith (Inr scenario_a_inputs) = Inr img"
    by blast
  then have "bind_err (rendered exact_arith (Inr scenario_a_inputs)) Inr = Inr img"
    by (simp add: bind_err_def)
  from create_map_image_completes
         [OF this, where e = all_writable and output_path = "''map.PNG''"]
  have "create_map_image exact_arith all_writable Inr (Inr scenario_a_inputs) ''map.PNG''
      empty_fs =
      (True, \<lparr>fs_dirs = {}, fs_files = Map.empty(''map.PNG'' \<mapsto> Base64Text img)\<rparr>)"
    by (simp add: empty_fs_def all_writable_def base64_path_uppercase)
  then show ?thesis ..
qed




end
